theory Spec2Isabelle
  imports Main
begin

section \<open>Boolean Expression Solver: the two C hosts\<close>

text \<open>
  The repository holds the same recursive-descent evaluator twice: \<^verbatim>\<open>solver.c\<close> (the
  command-line host) and \<^verbatim>\<open>server.c\<close> (the CGI host). Both are embedded here, function by
  function, under the prefixes \<open>solver_\<close> and \<open>server_\<close>.

  A C string is modelled by the list of its bytes; the terminating NUL is implicit at the
  end of the list (and a NUL byte inside the list terminates the string there, as it would
  in memory). The cursor \<^verbatim>\<open>const char **s\<close> is the list of bytes from the cursor on.
\<close>

subsection \<open>Bytes and the character tests of \<^verbatim>\<open>ctype.h\<close> (C locale)\<close>

text \<open>
  Neither program calls \<^verbatim>\<open>setlocale\<close>: the tests are those of the C locale, which no byte
  above 127 passes.
\<close>

definition NUL :: char where
  "NUL = CHR 0x00"

definition isspace :: "char \<Rightarrow> bool" where
  "isspace c = ((of_char c :: nat) = 32 \<or> (9 \<le> (of_char c :: nat) \<and> (of_char c :: nat) \<le> 13))"

definition isdigit :: "char \<Rightarrow> bool" where
  "isdigit c = (48 \<le> (of_char c :: nat) \<and> (of_char c :: nat) \<le> 57)"

definition isalpha :: "char \<Rightarrow> bool" where
  "isalpha c = ((65 \<le> (of_char c :: nat) \<and> (of_char c :: nat) \<le> 90) \<or>
                (97 \<le> (of_char c :: nat) \<and> (of_char c :: nat) \<le> 122))"

text \<open>\<^verbatim>\<open>**s\<close>: the byte at the cursor; at the end of the string it is the terminator.\<close>

definition peek :: "string \<Rightarrow> char" where
  "peek p = (case p of [] \<Rightarrow> NUL | c # _ \<Rightarrow> c)"

text \<open>
  The value of a \<^verbatim>\<open>char\<close> after integer promotion (\<^verbatim>\<open>char\<close> is signed under gcc on x86;
  with an unsigned \<^verbatim>\<open>char\<close> the range would be 0..255).
\<close>

definition char_int :: "char \<Rightarrow> int" where
  "char_int c = (if (of_char c :: nat) < 128 then int (of_char c) else int (of_char c) - 256)"

text \<open>
  The AND operator is written as the character constant \<^verbatim>\<open>'\<close>\<open>\<cdot>\<close>\<^verbatim>\<open>'\<close> in both files. The
  files are UTF-8, so between the quotes stand the two bytes \<open>0xC2 0xB7\<close>: a
  multi-character constant of type \<^verbatim>\<open>int\<close>. gcc (the compiler both file headers name)
  gives it the value \<open>0xC2 * 256 + 0xB7\<close>. The comparison \<^verbatim>\<open>**s == '\<close>\<open>\<cdot>\<close>\<^verbatim>\<open>'\<close> has a single
  promoted \<^verbatim>\<open>char\<close> on its left.
\<close>

definition middle_dot :: int where
  "middle_dot = 0xC2 * 256 + 0xB7"

text \<open>The middle dot as it stands in an input text: its UTF-8 encoding.\<close>

definition middle_dot_utf8 :: string where
  "middle_dot_utf8 = [CHR 0xC2, CHR 0xB7]"

subsection \<open>Process state\<close>

text \<open>
  \<^verbatim>\<open>static int g_var_mapping[256]\<close>, indexed by byte, and the lines written to
  \<^verbatim>\<open>stderr\<close>. At program start the array is all zero. What a function prints to
  \<^verbatim>\<open>stdout\<close> is part of the value its model returns.
\<close>

type_synonym mapping = "char \<Rightarrow> int"

record world =
  g_var_mapping :: mapping
  stderr :: "string list"

definition initial_world :: world where
  "initial_world = \<lparr>g_var_mapping = (\<lambda>_. 0), stderr = []\<rparr>"

datatype error =
    ReadPastEnd     \<comment> \<open>the cursor was moved over the terminator and dereferenced\<close>
  | ShiftOverflow   \<comment> \<open>\<^verbatim>\<open>1 << n\<close> with \<open>n \<ge> 31\<close> on a 32-bit \<^verbatim>\<open>int\<close>\<close>

definition missing_paren :: string where
  "missing_paren = ''Error: Missing closing parenthesis.''"

subsection \<open>\<^verbatim>\<open>skip_whitespace\<close> (identical in both files)\<close>

fun skip_whitespace :: "string \<Rightarrow> string" where
  "skip_whitespace [] = []"
| "skip_whitespace (c # cs) = (if c \<noteq> NUL \<and> isspace c then skip_whitespace cs else c # cs)"

subsection \<open>The parser of \<^verbatim>\<open>solver.c\<close>\<close>

text \<open>
  Each function takes the cursor and the process state and returns the value, the new
  cursor and the new state. The two \<^verbatim>\<open>while\<close> loops are the functions
  \<open>solver_expression_loop\<close> and \<open>solver_term_loop\<close>, entered with the value so far.

  The last branch of \<^verbatim>\<open>parse_factor\<close> executes \<^verbatim>\<open>(*s)++\<close> whatever the byte is. When
  that byte is the terminator the cursor leaves the string, and on every path the next
  access to it is the dereference in \<^verbatim>\<open>skip_whitespace\<close> (lines 88 and 94 of
  \<^verbatim>\<open>parse_term\<close>). The model ends the run there with \<open>ReadPastEnd\<close>. What the C program
  does from there on is not determined by the string: with readable bytes behind the
  terminator it goes on parsing those bytes, with none it faults. A result \<open>Inr\<close> stands
  for a run whose cursor has stayed inside the string; what \<^verbatim>\<open>solver.c\<close> returns is stated
  for such runs only.
\<close>

function (domintros)
    solver_parse_expression :: "string \<Rightarrow> world \<Rightarrow> error + (int \<times> string \<times> world)"
and solver_expression_loop :: "int \<Rightarrow> string \<Rightarrow> world \<Rightarrow> error + (int \<times> string \<times> world)"
and solver_parse_term :: "string \<Rightarrow> world \<Rightarrow> error + (int \<times> string \<times> world)"
and solver_term_loop :: "int \<Rightarrow> string \<Rightarrow> world \<Rightarrow> error + (int \<times> string \<times> world)"
and solver_parse_factor :: "string \<Rightarrow> world \<Rightarrow> error + (int \<times> string \<times> world)"
where
  "solver_parse_expression p w =
     (case solver_parse_term p w of
        Inl e \<Rightarrow> Inl e
      | Inr (v, p1, w1) \<Rightarrow> solver_expression_loop v (skip_whitespace p1) w1)"
| "solver_expression_loop v p w =
     (if peek p = CHR ''+'' then
        (case solver_parse_term (skip_whitespace (tl p)) w of
           Inl e \<Rightarrow> Inl e
         | Inr (term_value, p1, w1) \<Rightarrow>
             solver_expression_loop (if v \<noteq> 0 \<or> term_value \<noteq> 0 then 1 else 0)
               (skip_whitespace p1) w1)
      else Inr (v, p, w))"
| "solver_parse_term p w =
     (case solver_parse_factor p w of
        Inl e \<Rightarrow> Inl e
      | Inr (v, p1, w1) \<Rightarrow> solver_term_loop v (skip_whitespace p1) w1)"
| "solver_term_loop v p w =
     (if char_int (peek p) = middle_dot then
        (case solver_parse_factor (skip_whitespace (tl p)) w of
           Inl e \<Rightarrow> Inl e
         | Inr (factor_value, p1, w1) \<Rightarrow>
             solver_term_loop (if v \<noteq> 0 \<and> factor_value \<noteq> 0 then 1 else 0)
               (skip_whitespace p1) w1)
      else Inr (v, p, w))"
| "solver_parse_factor p0 w =
     (let p = skip_whitespace p0 in
      if peek p = CHR ''!'' then
        (case solver_parse_factor (tl p) w of
           Inl e \<Rightarrow> Inl e
         | Inr (factor_value, p1, w1) \<Rightarrow> Inr (if factor_value = 0 then 1 else 0, p1, w1))
      else if peek p = CHR ''('' then
        (case solver_parse_expression (tl p) w of
           Inl e \<Rightarrow> Inl e
         | Inr (v, p1, w1) \<Rightarrow>
             (let p2 = skip_whitespace p1 in
              if peek p2 = CHR '')'' then Inr (v, tl p2, w1)
              else Inr (v, p2, w1\<lparr>stderr := stderr w1 @ [missing_paren]\<rparr>)))
      else if isdigit (peek p) then Inr (int (of_char (peek p)) - 48, tl p, w)
      else if isalpha (peek p) then Inr (g_var_mapping w (peek p), tl p, w)
      else if peek p = NUL then Inl ReadPastEnd
      else Inr (0, tl p, w))"
  by pat_completeness auto

text \<open>\<^verbatim>\<open>evaluate_boolean_expression\<close>: the loop sets all 256 entries to 1.\<close>

definition solver_evaluate_boolean_expression :: "string \<Rightarrow> world \<Rightarrow> error + (int \<times> world)" where
  "solver_evaluate_boolean_expression expr w =
     (case solver_parse_expression expr (w\<lparr>g_var_mapping := (\<lambda>_. 1)\<rparr>) of
        Inl e \<Rightarrow> Inl e
      | Inr (result, p, w') \<Rightarrow> Inr (result, w'))"

text \<open>\<^verbatim>\<open>evaluate_expr_with_mapping\<close>: \<^verbatim>\<open>memcpy\<close> overwrites the whole global array.\<close>

definition solver_evaluate_expr_with_mapping ::
    "string \<Rightarrow> mapping \<Rightarrow> world \<Rightarrow> error + (int \<times> world)" where
  "solver_evaluate_expr_with_mapping expr mapping w =
     (case solver_parse_expression expr (w\<lparr>g_var_mapping := mapping\<rparr>) of
        Inl e \<Rightarrow> Inl e
      | Inr (result, p, w') \<Rightarrow> Inr (result, w'))"

subsection \<open>The parser of \<^verbatim>\<open>server.c\<close>\<close>

text \<open>
  \<^verbatim>\<open>parse_factor\<close> of \<^verbatim>\<open>server.c\<close> has no final \<^verbatim>\<open>else\<close>: a byte that starts no factor
  is left where it is. The cursor is therefore advanced over non-NUL bytes only and never
  leaves the string, so these functions have no error result.
\<close>

function (domintros)
    server_parse_expression :: "string \<Rightarrow> world \<Rightarrow> int \<times> string \<times> world"
and server_expression_loop :: "int \<Rightarrow> string \<Rightarrow> world \<Rightarrow> int \<times> string \<times> world"
and server_parse_term :: "string \<Rightarrow> world \<Rightarrow> int \<times> string \<times> world"
and server_term_loop :: "int \<Rightarrow> string \<Rightarrow> world \<Rightarrow> int \<times> string \<times> world"
and server_parse_factor :: "string \<Rightarrow> world \<Rightarrow> int \<times> string \<times> world"
where
  "server_parse_expression p w =
     (case server_parse_term p w of
        (v, p1, w1) \<Rightarrow> server_expression_loop v (skip_whitespace p1) w1)"
| "server_expression_loop v p w =
     (if peek p = CHR ''+'' then
        (case server_parse_term (skip_whitespace (tl p)) w of
           (rhs, p1, w1) \<Rightarrow>
             server_expression_loop (if v \<noteq> 0 \<or> rhs \<noteq> 0 then 1 else 0)
               (skip_whitespace p1) w1)
      else (v, p, w))"
| "server_parse_term p w =
     (case server_parse_factor p w of
        (v, p1, w1) \<Rightarrow> server_term_loop v (skip_whitespace p1) w1)"
| "server_term_loop v p w =
     (if char_int (peek p) = middle_dot then
        (case server_parse_factor (skip_whitespace (tl p)) w of
           (rhs, p1, w1) \<Rightarrow>
             server_term_loop (if v \<noteq> 0 \<and> rhs \<noteq> 0 then 1 else 0)
               (skip_whitespace p1) w1)
      else (v, p, w))"
| "server_parse_factor p0 w =
     (let p = skip_whitespace p0 in
      if peek p = CHR ''!'' then
        (case server_parse_factor (tl p) w of
           (factor_val, p1, w1) \<Rightarrow> (if factor_val = 0 then 1 else 0, p1, w1))
      else if peek p = CHR ''('' then
        (case server_parse_expression (tl p) w of
           (v, p1, w1) \<Rightarrow>
             (let p2 = skip_whitespace p1 in
              if peek p2 = CHR '')'' then (v, tl p2, w1)
              else (v, p2, w1\<lparr>stderr := stderr w1 @ [missing_paren]\<rparr>)))
      else if isdigit (peek p) then (int (of_char (peek p)) - 48, tl p, w)
      else if isalpha (peek p) then (g_var_mapping w (peek p), tl p, w)
      else (0, p, w))"
  by pat_completeness auto

definition server_evaluate_boolean_expression :: "string \<Rightarrow> world \<Rightarrow> int \<times> world" where
  "server_evaluate_boolean_expression expr w =
     (case server_parse_expression expr (w\<lparr>g_var_mapping := (\<lambda>_. 1)\<rparr>) of
        (result, p, w') \<Rightarrow> (result, w'))"

definition server_evaluate_expr_with_mapping :: "string \<Rightarrow> mapping \<Rightarrow> world \<Rightarrow> int \<times> world" where
  "server_evaluate_expr_with_mapping expr mapping w =
     (case server_parse_expression expr (w\<lparr>g_var_mapping := mapping\<rparr>) of
        (result, p, w') \<Rightarrow> (result, w'))"

text \<open>The value a call returns, without the state it leaves behind.\<close>

definition returned :: "error + (int \<times> world) \<Rightarrow> error + int" where
  "returned r = (case r of Inl e \<Rightarrow> Inl e | Inr (v, w) \<Rightarrow> Inr v)"

subsection \<open>\<^verbatim>\<open>generate_truth_table\<close> of \<^verbatim>\<open>solver.c\<close>\<close>

text \<open>
  The scan for variables: \<open>vars\<close> is the array \<^verbatim>\<open>vars[100]\<close> up to \<^verbatim>\<open>var_count\<close>; the
  inner loop that sets \<^verbatim>\<open>already_present\<close> is the membership test. The scan stops at the
  terminator.
\<close>

fun solver_collect_variables :: "string \<Rightarrow> char list \<Rightarrow> char list" where
  "solver_collect_variables [] vars = vars"
| "solver_collect_variables (ch # rest) vars =
     (if ch = NUL then vars
      else if isalpha ch then
        (if ch \<notin> set vars \<and> length vars < 100
         then solver_collect_variables rest (vars @ [ch])
         else solver_collect_variables rest vars)
      else solver_collect_variables rest vars)"

text \<open>
  The inner loop over \<open>j\<close> of one row \<open>i\<close>: it stores
  \<^verbatim>\<open>(i >> (var_count - j - 1)) & 1\<close> in the mapping and prints the stored entry. \<open>i\<close> is
  not negative, so the shift is a division by a power of two.
\<close>

fun solver_assign_row ::
    "nat \<Rightarrow> int \<Rightarrow> nat \<Rightarrow> char list \<Rightarrow> mapping \<Rightarrow> int list \<Rightarrow> mapping \<times> int list" where
  "solver_assign_row var_count i j [] mapping printed = (mapping, printed)"
| "solver_assign_row var_count i j (x # xs) mapping printed =
     (let mapping' = mapping(x := (i div 2 ^ (var_count - j - 1)) mod 2)
      in solver_assign_row var_count i (Suc j) xs mapping' (printed @ [mapping' x]))"

text \<open>A printed row: the values of the variables, then the result.\<close>

type_synonym row = "int list \<times> int"

definition solver_truth_table_row ::
    "string \<Rightarrow> char list \<Rightarrow> int \<Rightarrow> world \<Rightarrow> error + (row \<times> world)" where
  "solver_truth_table_row expr vars i w =
     (case solver_assign_row (length vars) i 0 vars (\<lambda>_. 1) [] of
        (mapping, printed) \<Rightarrow>
          (case solver_evaluate_expr_with_mapping expr mapping w of
             Inl e \<Rightarrow> Inl e
           | Inr (result, w') \<Rightarrow> Inr ((printed, result), w')))"

text \<open>The outer loop, over the row numbers still to come.\<close>

fun solver_truth_table_rows ::
    "string \<Rightarrow> char list \<Rightarrow> int list \<Rightarrow> world \<Rightarrow> error + (row list \<times> world)" where
  "solver_truth_table_rows expr vars [] w = Inr ([], w)"
| "solver_truth_table_rows expr vars (i # rest) w =
     (case solver_truth_table_row expr vars i w of
        Inl e \<Rightarrow> Inl e
      | Inr (r, w1) \<Rightarrow>
          (case solver_truth_table_rows expr vars rest w1 of
             Inl e \<Rightarrow> Inl e
           | Inr (rs, w2) \<Rightarrow> Inr (r # rs, w2)))"

text \<open>
  \<^verbatim>\<open>int total_rows = 1 << var_count\<close>: with a 32-bit \<^verbatim>\<open>int\<close> the shift is defined for
  \<open>var_count \<le> 30\<close> only.
\<close>

definition solver_generate_truth_table :: "string \<Rightarrow> world \<Rightarrow> error + (row list \<times> world)" where
  "solver_generate_truth_table expr w =
     (let vars = solver_collect_variables expr [];
          var_count = length vars
      in if 31 \<le> var_count then Inl ShiftOverflow
         else solver_truth_table_rows expr vars (map int [0 ..< 2 ^ var_count]) w)"

subsection \<open>The grammar of the specification\<close>

text \<open>
  Section 4.1 of the specification, over the bytes of the input text:
  \<^verbatim>\<open>expression = term { '+' term }\<close>, \<^verbatim>\<open>term = factor { '\<close>\<open>\<cdot>\<close>\<^verbatim>\<open>' factor }\<close>,
  \<^verbatim>\<open>factor = '!' factor | '(' expression ')' | '0' | '1' | [A-Za-z]\<close>, with whitespace
  allowed in front of every token and at the end. These predicates follow the
  specification's words, not the code.
\<close>

definition spaces :: "string \<Rightarrow> bool" where
  "spaces ws = (\<forall>c \<in> set ws. isspace c)"

inductive grammar_factor :: "string \<Rightarrow> bool"
      and grammar_term_rest :: "string \<Rightarrow> bool"
      and grammar_term :: "string \<Rightarrow> bool"
      and grammar_expression_rest :: "string \<Rightarrow> bool"
      and grammar_expression :: "string \<Rightarrow> bool"
where
  factor_not: "grammar_factor f \<Longrightarrow> grammar_factor (CHR ''!'' # f)"
| factor_paren: "grammar_expression e \<Longrightarrow> spaces ws \<Longrightarrow> grammar_factor (CHR ''('' # e @ ws @ '')'')"
| factor_zero: "grammar_factor ''0''"
| factor_one: "grammar_factor ''1''"
| factor_variable: "isalpha c \<Longrightarrow> grammar_factor [c]"
| factor_space: "isspace c \<Longrightarrow> grammar_factor f \<Longrightarrow> grammar_factor (c # f)"
| term_rest_empty: "grammar_term_rest []"
| term_rest_and: "spaces ws \<Longrightarrow> grammar_factor f \<Longrightarrow> grammar_term_rest r \<Longrightarrow>
     grammar_term_rest (ws @ middle_dot_utf8 @ f @ r)"
| term_of_factors: "grammar_factor f \<Longrightarrow> grammar_term_rest r \<Longrightarrow> grammar_term (f @ r)"
| expression_rest_empty: "grammar_expression_rest []"
| expression_rest_or: "spaces ws \<Longrightarrow> grammar_term t \<Longrightarrow> grammar_expression_rest r \<Longrightarrow>
     grammar_expression_rest (ws @ ''+'' @ t @ r)"
| expression_of_terms: "grammar_term t \<Longrightarrow> grammar_expression_rest r \<Longrightarrow> grammar_expression (t @ r)"

definition conforms :: "string \<Rightarrow> bool" where
  "conforms s = (\<exists>e ws. grammar_expression e \<and> spaces ws \<and> s = e @ ws)"

text \<open>
  The specification's Variable Set (section 3): the distinct letters of the text in the
  order of their first occurrence.
\<close>

fun first_occurrences :: "char list \<Rightarrow> char list" where
  "first_occurrences [] = []"
| "first_occurrences (c # cs) = c # filter (\<lambda>d. d \<noteq> c) (first_occurrences cs)"

definition variable_set :: "string \<Rightarrow> char list" where
  "variable_set s = first_occurrences (filter isalpha (takeWhile (\<lambda>c. c \<noteq> NUL) s))"

definition boolean_mapping :: "mapping \<Rightarrow> bool" where
  "boolean_mapping m = (\<forall>c. m c = 0 \<or> m c = 1)"

subsection \<open>Auxiliary notions for the proofs\<close>

text \<open>The cursor stands, after whitespace, in front of the first byte of a middle dot.\<close>

definition at_dot :: "string \<Rightarrow> bool" where
  "at_dot p = (peek (skip_whitespace p) = CHR 0xC2)"

text \<open>What follows does not continue an expression with another \<^verbatim>\<open>+\<close>.\<close>

definition no_plus :: "string \<Rightarrow> bool" where
  "no_plus p = (peek (skip_whitespace p) \<noteq> CHR ''+'')"

text \<open>
  Both hosts return, with the same value, cursor and state; the cursor satisfies \<open>C\<close>,
  the global mapping is unchanged, and the value is 0 or 1 when the mapping is Boolean
  (and \<open>b\<close> holds, for a loop entered with a value).
\<close>

definition both_return ::
  "error + (int \<times> string \<times> world) \<Rightarrow> int \<times> string \<times> world \<Rightarrow> world \<Rightarrow> bool \<Rightarrow> (string \<Rightarrow> bool) \<Rightarrow> bool" where
  "both_return r1 r2 w b C = (\<exists>v p' w'. r1 = Inr (v, p', w') \<and> r2 = (v, p', w') \<and> C p' \<and>
     g_var_mapping w' = g_var_mapping w \<and>
     (boolean_mapping (g_var_mapping w) \<and> b \<longrightarrow> v = 0 \<or> v = 1))"

abbreviation after_term :: "string \<Rightarrow> string \<Rightarrow> bool" where
  "after_term rest \<equiv> (\<lambda>p'. p' = skip_whitespace rest \<or> (at_dot p' \<and> skip_whitespace p' = p'))"

text \<open>
  Two runs from states with the same global mapping: the same error, or the same value and
  cursor (a part of the input) and again states with the same global mapping.
\<close>

definition agree ::
  "string \<Rightarrow> error + (int \<times> string \<times> world) \<Rightarrow> error + (int \<times> string \<times> world) \<Rightarrow> bool" where
  "agree p r1 r2 =
     (case r1 of
        Inl e \<Rightarrow> r2 = Inl e
      | Inr (v, p', w1) \<Rightarrow> set p' \<subseteq> set p \<and>
          (\<exists>w2. r2 = Inr (v, p', w2) \<and> g_var_mapping w2 = g_var_mapping w1))"

definition server_agree ::
  "string \<Rightarrow> int \<times> string \<times> world \<Rightarrow> int \<times> string \<times> world \<Rightarrow> bool" where
  "server_agree p r1 r2 =
     (case r1 of (v, p', w1) \<Rightarrow> set p' \<subseteq> set p \<and>
          (\<exists>w2. r2 = (v, p', w2) \<and> g_var_mapping w2 = g_var_mapping w1))"

text \<open>The bytes of which the grammar's texts are made.\<close>

definition grammar_byte :: "char \<Rightarrow> bool" where
  "grammar_byte c = (isspace c \<or> c = CHR ''+'' \<or> c = CHR 0xC2 \<or> c = CHR 0xB7 \<or> c = CHR ''!'' \<or>
     c = CHR ''('' \<or> c = CHR '')'' \<or> isdigit c \<or> isalpha c)"

text \<open>The rows a call of \<^verbatim>\<open>generate_truth_table\<close> prints, without the state it leaves.\<close>

definition table_rows :: "error + (row list \<times> world) \<Rightarrow> error + row list" where
  "table_rows r = (case r of Inl e \<Rightarrow> Inl e | Inr (rows, w) \<Rightarrow> Inr rows)"


subsection \<open>Termination of the two parsers\<close>

lemma length_skip_whitespace: "length (skip_whitespace p) \<le> length p"
  by (induction p) auto

lemma peek_nonempty: "peek p \<noteq> NUL \<Longrightarrow> p \<noteq> []"
  by (auto simp: peek_def)

lemma length_tl_skip: "peek p \<noteq> NUL \<Longrightarrow> length (skip_whitespace (tl p)) < length p"
  using length_skip_whitespace [of "tl p"] by (cases p) (auto simp: peek_def)

lemma char_int_bound: "char_int c < 128"
proof -
  have "(of_char c :: nat) < 384"
    by (rule less_trans [OF nat_of_char_less_256]) simp
  then show ?thesis by (simp add: char_int_def)
qed

lemma never_middle_dot: "char_int c \<noteq> middle_dot"
  using char_int_bound [of c] by (simp add: middle_dot_def)

lemma solver_length_dom:
  "solver_parse_expression_solver_expression_loop_solver_parse_term_solver_term_loop_solver_parse_factor_dom (Inl (Inl (p, w))) \<Longrightarrow>
     (\<forall>v p' w'. solver_parse_expression p w = Inr (v, p', w') \<longrightarrow> length p' \<le> length p)"
  "solver_parse_expression_solver_expression_loop_solver_parse_term_solver_term_loop_solver_parse_factor_dom (Inl (Inr (v0, p, w))) \<Longrightarrow>
     (\<forall>v p' w'. solver_expression_loop v0 p w = Inr (v, p', w') \<longrightarrow> length p' \<le> length p)"
  "solver_parse_expression_solver_expression_loop_solver_parse_term_solver_term_loop_solver_parse_factor_dom (Inr (Inl (p, w))) \<Longrightarrow>
     (\<forall>v p' w'. solver_parse_term p w = Inr (v, p', w') \<longrightarrow> length p' \<le> length p)"
  "solver_parse_expression_solver_expression_loop_solver_parse_term_solver_term_loop_solver_parse_factor_dom (Inr (Inr (Inl (v0, p, w)))) \<Longrightarrow>
     (\<forall>v p' w'. solver_term_loop v0 p w = Inr (v, p', w') \<longrightarrow> length p' \<le> length p)"
  "solver_parse_expression_solver_expression_loop_solver_parse_term_solver_term_loop_solver_parse_factor_dom (Inr (Inr (Inr (p, w)))) \<Longrightarrow>
     (\<forall>v p' w'. solver_parse_factor p w = Inr (v, p', w') \<longrightarrow> length p' \<le> length p)"
proof (induct rule: solver_parse_expression_solver_expression_loop_solver_parse_term_solver_term_loop_solver_parse_factor.pinduct)
  case (1 p w)
  show ?case
  proof (intro allI impI)
    fix v p' w'
    assume r: "solver_parse_expression p w = Inr (v, p', w')"
    from r 1(1) obtain a q b where t: "solver_parse_term p w = Inr (a, q, b)"
      and l: "solver_expression_loop a (skip_whitespace q) b = Inr (v, p', w')"
      by (auto simp: solver_parse_expression.psimps split: sum.splits)
    from 1(2) t have "length q \<le> length p" by blast
    moreover from 1(3) [OF t refl refl] l have "length p' \<le> length (skip_whitespace q)" by blast
    ultimately show "length p' \<le> length p"
      using length_skip_whitespace [of q] by linarith
  qed
next
  case (2 v0 p w)
  show ?case
  proof (intro allI impI)
    fix v p' w'
    assume r: "solver_expression_loop v0 p w = Inr (v, p', w')"
    show "length p' \<le> length p"
    proof (cases "peek p = CHR ''+''")
      case True
      then have ne: "peek p \<noteq> NUL" by (simp add: NUL_def)
      from r 2(1) True obtain a q b
        where t: "solver_parse_term (skip_whitespace (tl p)) w = Inr (a, q, b)"
        and l: "solver_expression_loop (if v0 \<noteq> 0 \<or> a \<noteq> 0 then 1 else 0) (skip_whitespace q) b = Inr (v, p', w')"
        by (auto simp: solver_expression_loop.psimps split: sum.splits)
      from 2(2) [OF True] t have "length q \<le> length (skip_whitespace (tl p))" by blast
      moreover from 2(3) [OF True t refl refl] l have "length p' \<le> length (skip_whitespace q)" by blast
      ultimately show ?thesis
        using length_skip_whitespace [of q] length_tl_skip [OF ne] by linarith
    next
      case False
      with r 2(1) show ?thesis by (simp add: solver_expression_loop.psimps)
    qed
  qed
next
  case (3 p w)
  show ?case
  proof (intro allI impI)
    fix v p' w'
    assume r: "solver_parse_term p w = Inr (v, p', w')"
    from r 3(1) obtain a q b where t: "solver_parse_factor p w = Inr (a, q, b)"
      and l: "solver_term_loop a (skip_whitespace q) b = Inr (v, p', w')"
      by (auto simp: solver_parse_term.psimps split: sum.splits)
    from 3(2) t have "length q \<le> length p" by blast
    moreover from 3(3) [OF t refl refl] l have "length p' \<le> length (skip_whitespace q)" by blast
    ultimately show "length p' \<le> length p"
      using length_skip_whitespace [of q] by linarith
  qed
next
  case (4 v p w)
  then show ?case
    by (simp add: solver_term_loop.psimps never_middle_dot)
next
  case (5 p0 w)
  show ?case
  proof (intro allI impI)
    fix v p' w'
    assume r: "solver_parse_factor p0 w = Inr (v, p', w')"
    let ?p = "skip_whitespace p0"
    have sk: "length ?p \<le> length p0" by (rule length_skip_whitespace)
    have tl: "length (tl ?p) \<le> length p0" using sk by simp
    consider (not) "peek ?p = CHR ''!''" | (paren) "peek ?p \<noteq> CHR ''!''" "peek ?p = CHR ''(''"
      | (other) "peek ?p \<noteq> CHR ''!''" "peek ?p \<noteq> CHR ''(''" by blast
    then show "length p' \<le> length p0"
    proof cases
      case not
      with r 5(1) obtain a b where "solver_parse_factor (tl ?p) w = Inr (a, p', b)"
        by (auto simp: solver_parse_factor.psimps Let_def split: sum.splits)
      with 5(2) [OF refl not] have "length p' \<le> length (tl ?p)" by blast
      with tl show ?thesis by linarith
    next
      case paren
      with r 5(1) obtain a q b where e: "solver_parse_expression (tl ?p) w = Inr (a, q, b)"
        and p': "p' = tl (skip_whitespace q) \<or> p' = skip_whitespace q"
        by (auto simp: solver_parse_factor.psimps Let_def split: sum.splits if_splits)
      from 5(3) [OF refl paren] e have "length q \<le> length (tl ?p)" by blast
      moreover from p' have "length p' \<le> length (skip_whitespace q)" by auto
      ultimately show ?thesis using tl length_skip_whitespace [of q] by linarith
    next
      case other
      with r 5(1) have "p' = tl ?p"
        by (auto simp: solver_parse_factor.psimps Let_def split: if_splits)
      with tl show ?thesis by simp
    qed
  qed
qed

termination solver_parse_expression
  apply (relation "measure (\<lambda>x. case x of
      Inl (Inl (p, w)) \<Rightarrow> 3 * length p + 2
    | Inl (Inr (v, p, w)) \<Rightarrow> 3 * length p
    | Inr (Inl (p, w)) \<Rightarrow> 3 * length p + 1
    | Inr (Inr (Inl (v, p, w))) \<Rightarrow> 3 * length p
    | Inr (Inr (Inr (p, w))) \<Rightarrow> 3 * length p)")
          apply simp_all
  subgoal for p w b x y xa ya
    using solver_length_dom(3) [of p w] length_skip_whitespace [of xa] by fastforce
  subgoal for p
    using length_tl_skip [of p] by (simp add: NUL_def)
  subgoal for p w b x y xa ya
    using solver_length_dom(3) [of "skip_whitespace (tl p)" w] length_skip_whitespace [of xa]
      length_tl_skip [of p] by (fastforce simp: NUL_def)
  subgoal for p w b x y xa ya
    using solver_length_dom(5) [of p w] length_skip_whitespace [of xa] by fastforce
  subgoal for p
    using never_middle_dot by blast
  subgoal for p w b x y xa ya
    using never_middle_dot by blast
  subgoal for p0
    using length_skip_whitespace [of p0] peek_nonempty [of "skip_whitespace p0"]
    by (cases "skip_whitespace p0") (auto simp: NUL_def)
  subgoal for p0
    using length_skip_whitespace [of p0] peek_nonempty [of "skip_whitespace p0"]
    by (cases "skip_whitespace p0") (auto simp: NUL_def)
  done

lemma server_length_dom:
  "server_parse_expression_server_expression_loop_server_parse_term_server_term_loop_server_parse_factor_dom (Inl (Inl (p, w))) \<Longrightarrow>
     length (fst (snd (server_parse_expression p w))) \<le> length p"
  "server_parse_expression_server_expression_loop_server_parse_term_server_term_loop_server_parse_factor_dom (Inl (Inr (v0, p, w))) \<Longrightarrow>
     length (fst (snd (server_expression_loop v0 p w))) \<le> length p"
  "server_parse_expression_server_expression_loop_server_parse_term_server_term_loop_server_parse_factor_dom (Inr (Inl (p, w))) \<Longrightarrow>
     length (fst (snd (server_parse_term p w))) \<le> length p"
  "server_parse_expression_server_expression_loop_server_parse_term_server_term_loop_server_parse_factor_dom (Inr (Inr (Inl (v0, p, w)))) \<Longrightarrow>
     length (fst (snd (server_term_loop v0 p w))) \<le> length p"
  "server_parse_expression_server_expression_loop_server_parse_term_server_term_loop_server_parse_factor_dom (Inr (Inr (Inr (p, w)))) \<Longrightarrow>
     length (fst (snd (server_parse_factor p w))) \<le> length p"
proof (induct rule: server_parse_expression_server_expression_loop_server_parse_term_server_term_loop_server_parse_factor.pinduct)
  case (1 p w)
  obtain a q b where t: "server_parse_term p w = (a, q, b)" by (cases "server_parse_term p w") auto
  from 1(2) t have "length q \<le> length p" by simp
  moreover from 1(3) [OF t [symmetric] refl]
  have "length (fst (snd (server_expression_loop a (skip_whitespace q) b))) \<le> length (skip_whitespace q)" .
  ultimately show ?case
    using 1(1) t length_skip_whitespace [of q] by (simp add: server_parse_expression.psimps)
next
  case (2 v0 p w)
  show ?case
  proof (cases "peek p = CHR ''+''")
    case True
    then have ne: "peek p \<noteq> NUL" by (simp add: NUL_def)
    obtain a q b where t: "server_parse_term (skip_whitespace (tl p)) w = (a, q, b)"
      by (cases "server_parse_term (skip_whitespace (tl p)) w") auto
    from 2(2) [OF True] t have "length q \<le> length (skip_whitespace (tl p))" by simp
    moreover from 2(3) [OF True t [symmetric] refl]
    have "length (fst (snd (server_expression_loop (if v0 \<noteq> 0 \<or> a \<noteq> 0 then 1 else 0) (skip_whitespace q) b)))
            \<le> length (skip_whitespace q)" .
    ultimately show ?thesis
      using 2(1) True t length_skip_whitespace [of q] length_tl_skip [OF ne]
      by (simp add: server_expression_loop.psimps)
  next
    case False
    with 2(1) show ?thesis by (simp add: server_expression_loop.psimps)
  qed
next
  case (3 p w)
  obtain a q b where t: "server_parse_factor p w = (a, q, b)" by (cases "server_parse_factor p w") auto
  from 3(2) t have "length q \<le> length p" by simp
  moreover from 3(3) [OF t [symmetric] refl]
  have "length (fst (snd (server_term_loop a (skip_whitespace q) b))) \<le> length (skip_whitespace q)" .
  ultimately show ?case
    using 3(1) t length_skip_whitespace [of q] by (simp add: server_parse_term.psimps)
next
  case (4 v p w)
  then show ?case
    by (simp add: server_term_loop.psimps never_middle_dot)
next
  case (5 p0 w)
  let ?p = "skip_whitespace p0"
  have sk: "length ?p \<le> length p0" by (rule length_skip_whitespace)
  have tl: "length (tl ?p) \<le> length p0" using sk by simp
  consider (not) "peek ?p = CHR ''!''" | (paren) "peek ?p \<noteq> CHR ''!''" "peek ?p = CHR ''(''"
    | (other) "peek ?p \<noteq> CHR ''!''" "peek ?p \<noteq> CHR ''(''" by blast
  then show ?case
  proof cases
    case not
    obtain a q b where t: "server_parse_factor (tl ?p) w = (a, q, b)"
      by (cases "server_parse_factor (tl ?p) w") auto
    from 5(2) [OF refl not] t have "length q \<le> length (tl ?p)" by simp
    with tl 5(1) not t show ?thesis by (simp add: server_parse_factor.psimps Let_def)
  next
    case paren
    obtain a q b where t: "server_parse_expression (tl ?p) w = (a, q, b)"
      by (cases "server_parse_expression (tl ?p) w") auto
    from 5(3) [OF refl paren] t have "length q \<le> length (tl ?p)" by simp
    then have "length (skip_whitespace q) \<le> length p0" "length (tl (skip_whitespace q)) \<le> length p0"
      using tl length_skip_whitespace [of q] by simp_all
    with 5(1) paren t show ?thesis
      by (simp add: server_parse_factor.psimps Let_def)
  next
    case other
    with 5(1) sk tl show ?thesis
      by (simp add: server_parse_factor.psimps Let_def)
  qed
qed

termination server_parse_expression
  apply (relation "measure (\<lambda>x. case x of
      Inl (Inl (p, w)) \<Rightarrow> 3 * length p + 2
    | Inl (Inr (v, p, w)) \<Rightarrow> 3 * length p
    | Inr (Inl (p, w)) \<Rightarrow> 3 * length p + 1
    | Inr (Inr (Inl (v, p, w))) \<Rightarrow> 3 * length p
    | Inr (Inr (Inr (p, w))) \<Rightarrow> 3 * length p)")
          apply simp_all
  subgoal for p w x y xa ya
    using server_length_dom(3) [of p w] length_skip_whitespace [of xa]
    by (cases "server_parse_term p w") auto
  subgoal for p
    using length_tl_skip [of p] by (simp add: NUL_def)
  subgoal for p w x y xa ya
    using server_length_dom(3) [of "skip_whitespace (tl p)" w] length_skip_whitespace [of xa]
      length_tl_skip [of p]
    by (cases "server_parse_term (skip_whitespace (tl p)) w") (auto simp: NUL_def)
  subgoal for p w x y xa ya
    using server_length_dom(5) [of p w] length_skip_whitespace [of xa]
    by (cases "server_parse_factor p w") auto
  subgoal for p
    using never_middle_dot by blast
  subgoal for p w x y xa ya
    using never_middle_dot by blast
  subgoal for p0
    using length_skip_whitespace [of p0] peek_nonempty [of "skip_whitespace p0"]
    by (cases "skip_whitespace p0") (auto simp: NUL_def)
  subgoal for p0
    using length_skip_whitespace [of p0] peek_nonempty [of "skip_whitespace p0"]
    by (cases "skip_whitespace p0") (auto simp: NUL_def)
  done

text \<open>
  The defining equations are recursive and unconditional: they are used on demand, not as
  default simplification rules.
\<close>

declare solver_parse_expression.simps [simp del] solver_expression_loop.simps [simp del]
  solver_parse_term.simps [simp del] solver_term_loop.simps [simp del]
  solver_parse_factor.simps [simp del]
  server_parse_expression.simps [simp del] server_expression_loop.simps [simp del]
  server_parse_term.simps [simp del] server_term_loop.simps [simp del]
  server_parse_factor.simps [simp del]

lemmas solver_simps = solver_parse_expression.simps solver_expression_loop.simps
  solver_parse_term.simps solver_term_loop.simps solver_parse_factor.simps

lemmas server_simps = server_parse_expression.simps server_expression_loop.simps
  server_parse_term.simps server_term_loop.simps server_parse_factor.simps

lemmas char_tests = isspace_def isdigit_def isalpha_def NUL_def

lemmas evaluation = solver_simps server_simps never_middle_dot peek_def char_tests
  middle_dot_utf8_def Let_def missing_paren_def returned_def initial_world_def
  solver_evaluate_boolean_expression_def solver_evaluate_expr_with_mapping_def
  server_evaluate_boolean_expression_def server_evaluate_expr_with_mapping_def

subsection \<open>Basic facts about the parsers\<close>

lemma isalpha_other:
  "isalpha c \<Longrightarrow> \<not> isspace c \<and> \<not> isdigit c \<and> c \<noteq> NUL \<and> c \<noteq> CHR ''!'' \<and> c \<noteq> CHR ''(''
     \<and> c \<noteq> CHR '')'' \<and> c \<noteq> CHR ''+''"
  by (auto simp: char_tests)

text \<open>The loop of \<^verbatim>\<open>parse_term\<close> is never entered: no byte equals the two-byte constant.\<close>

lemma solver_term_loop_returns: "solver_term_loop v p w = Inr (v, p, w)"
  by (simp add: solver_term_loop.simps never_middle_dot)

lemma server_term_loop_returns: "server_term_loop v p w = (v, p, w)"
  by (simp add: server_term_loop.simps never_middle_dot)

lemma solver_lone_variable:
  assumes "isalpha c"
  shows "solver_parse_expression [c] w = Inr (g_var_mapping w c, [], w)"
  using isalpha_other [OF assms] assms
  by (simp add: solver_simps never_middle_dot peek_def NUL_def)

lemma server_lone_variable:
  assumes "isalpha c"
  shows "server_parse_expression [c] w = (g_var_mapping w c, [], w)"
  using isalpha_other [OF assms] assms
  by (simp add: server_simps never_middle_dot peek_def NUL_def)

lemma assign_row_other:
  "x \<notin> set vars \<Longrightarrow> fst (solver_assign_row n i j vars m printed) x = m x"
  by (induction vars arbitrary: j m printed) (auto simp: Let_def)

subsection \<open>Whitespace\<close>


lemma isspace_not_NUL: "isspace c \<Longrightarrow> c \<noteq> NUL"
  by (auto simp: char_tests)

lemma skip_whitespace_idem [simp]: "skip_whitespace (skip_whitespace p) = skip_whitespace p"
  by (induction p) auto

lemma skip_whitespace_spaces: "spaces ws \<Longrightarrow> skip_whitespace (ws @ p) = skip_whitespace p"
  by (induction ws) (auto simp: spaces_def isspace_not_NUL)

lemma solver_parse_factor_skip: "solver_parse_factor (skip_whitespace p) w = solver_parse_factor p w"
  by (simp add: solver_parse_factor.simps [of p] solver_parse_factor.simps [of "skip_whitespace p"])

lemma server_parse_factor_skip: "server_parse_factor (skip_whitespace p) w = server_parse_factor p w"
  by (simp add: server_parse_factor.simps [of p] server_parse_factor.simps [of "skip_whitespace p"])

lemma solver_parse_term_skip: "solver_parse_term (skip_whitespace p) w = solver_parse_term p w"
  by (simp add: solver_parse_term.simps solver_parse_factor_skip)

lemma server_parse_term_skip: "server_parse_term (skip_whitespace p) w = server_parse_term p w"
  by (simp add: server_parse_term.simps server_parse_factor_skip)

lemma at_dot_skip [simp]: "at_dot (skip_whitespace p) = at_dot p"
  by (simp add: at_dot_def)

lemma at_dot_term_rest:
  "spaces ws \<Longrightarrow> at_dot (ws @ middle_dot_utf8 @ x)"
  by (simp add: at_dot_def skip_whitespace_spaces middle_dot_utf8_def peek_def char_tests)

lemma solver_expression_loop_at_dot:
  "at_dot p \<Longrightarrow> solver_expression_loop v (skip_whitespace p) w = Inr (v, skip_whitespace p, w)"
  by (simp add: solver_expression_loop.simps at_dot_def)

lemma server_expression_loop_at_dot:
  "at_dot p \<Longrightarrow> server_expression_loop v (skip_whitespace p) w = (v, skip_whitespace p, w)"
  by (simp add: server_expression_loop.simps at_dot_def)

lemma grammar_term_rest_cases:
  "grammar_term_rest r \<Longrightarrow> r = [] \<or> (\<forall>rest. at_dot (r @ rest))"
  by (erule grammar_term_rest.cases) (auto simp: at_dot_term_rest)


subsection \<open>The parsers on an input that conforms to the grammar\<close>

text \<open>
  By induction over the grammar: on a factor, term or expression followed by any text, both
  hosts return the same value, cursor and state. The cursor has either consumed the phrase
  or it stands in front of the first middle dot met, where every caller returns.
\<close>

lemma both_returnI:
  "r1 = Inr (v, p', w') \<Longrightarrow> r2 = (v, p', w') \<Longrightarrow> C p' \<Longrightarrow> g_var_mapping w' = g_var_mapping w \<Longrightarrow>
   (boolean_mapping (g_var_mapping w) \<Longrightarrow> b \<Longrightarrow> v = 0 \<or> v = 1) \<Longrightarrow> both_return r1 r2 w b C"
  unfolding both_return_def by blast

lemma both_returnE:
  assumes "both_return r1 r2 w b C"
  obtains v p' w' where "r1 = Inr (v, p', w')" "r2 = (v, p', w')" "C p'"
    "g_var_mapping w' = g_var_mapping w" "boolean_mapping (g_var_mapping w) \<Longrightarrow> b \<Longrightarrow> v = 0 \<or> v = 1"
  using assms unfolding both_return_def by blast

lemma grammar_parse:
  "grammar_factor f \<Longrightarrow>
     (\<forall>rest w. both_return (solver_parse_factor (f @ rest) w) (server_parse_factor (f @ rest) w) w True
        (\<lambda>p'. p' = rest \<or> at_dot p'))"
  "grammar_term_rest r \<Longrightarrow> True"
  "grammar_term t \<Longrightarrow>
     (\<forall>rest w. both_return (solver_parse_term (t @ rest) w) (server_parse_term (t @ rest) w) w True
        (after_term rest))"
  "grammar_expression_rest x \<Longrightarrow>
     (\<forall>rest w v. no_plus rest \<longrightarrow>
        both_return (solver_expression_loop v (skip_whitespace (x @ rest)) w)
          (server_expression_loop v (skip_whitespace (x @ rest)) w) w (v = 0 \<or> v = 1)
          (after_term rest))"
  "grammar_expression e \<Longrightarrow>
     (\<forall>rest w. no_plus rest \<longrightarrow>
        both_return (solver_parse_expression (e @ rest) w) (server_parse_expression (e @ rest) w) w True
          (after_term rest))"
proof (induction rule: grammar_factor_grammar_term_rest_grammar_term_grammar_expression_rest_grammar_expression.inducts)
  case (factor_not f)
  show ?case
  proof (intro allI)
    fix rest w
    from factor_not.IH [rule_format, of rest w] show
      "both_return (solver_parse_factor ((CHR ''!'' # f) @ rest) w)
         (server_parse_factor ((CHR ''!'' # f) @ rest) w) w True (\<lambda>p'. p' = rest \<or> at_dot p')"
    proof (rule both_returnE)
      fix v p' w'
      assume a: "solver_parse_factor (f @ rest) w = Inr (v, p', w')"
        "server_parse_factor (f @ rest) w = (v, p', w')" "p' = rest \<or> at_dot p'"
        "g_var_mapping w' = g_var_mapping w"
      show ?thesis
        by (rule both_returnI [where v = "if v = 0 then 1 else 0" and p' = p' and w' = w'])
          (use a in \<open>simp_all add: solver_parse_factor.simps [of "CHR ''!'' # f @ rest"]
             server_parse_factor.simps [of "CHR ''!'' # f @ rest"] peek_def char_tests\<close>)
    qed
  qed
next
  case (factor_paren e ws)
  show ?case
  proof (intro allI)
    fix rest w
    let ?tail = "ws @ CHR '')'' # rest"
    have sk: "skip_whitespace ?tail = CHR '')'' # rest"
      using factor_paren.hyps(2) by (simp add: skip_whitespace_spaces char_tests)
    then have np: "no_plus ?tail" by (simp add: no_plus_def peek_def)
    have unfold_solver: "solver_parse_factor (CHR ''('' # e @ ?tail) w =
        (case solver_parse_expression (e @ ?tail) w of
           Inl e \<Rightarrow> Inl e
         | Inr (v, p1, w1) \<Rightarrow>
             (let p2 = skip_whitespace p1 in
              if peek p2 = CHR '')'' then Inr (v, tl p2, w1)
              else Inr (v, p2, w1\<lparr>stderr := stderr w1 @ [missing_paren]\<rparr>)))"
      by (simp add: solver_parse_factor.simps [of "CHR ''('' # e @ ws @ CHR '')'' # rest"] peek_def char_tests)
    have unfold_server: "server_parse_factor (CHR ''('' # e @ ?tail) w =
        (case server_parse_expression (e @ ?tail) w of
           (v, p1, w1) \<Rightarrow>
             (let p2 = skip_whitespace p1 in
              if peek p2 = CHR '')'' then (v, tl p2, w1)
              else (v, p2, w1\<lparr>stderr := stderr w1 @ [missing_paren]\<rparr>)))"
      by (simp add: server_parse_factor.simps [of "CHR ''('' # e @ ws @ CHR '')'' # rest"] peek_def char_tests)
    from factor_paren.IH [rule_format, OF np, of w] show
      "both_return (solver_parse_factor ((CHR ''('' # e @ ws @ '')'') @ rest) w)
         (server_parse_factor ((CHR ''('' # e @ ws @ '')'') @ rest) w) w True (\<lambda>p'. p' = rest \<or> at_dot p')"
    proof (rule both_returnE)
      fix v p1 w1
      assume a: "solver_parse_expression (e @ ?tail) w = Inr (v, p1, w1)"
        "server_parse_expression (e @ ?tail) w = (v, p1, w1)"
        "g_var_mapping w1 = g_var_mapping w"
        "boolean_mapping (g_var_mapping w) \<Longrightarrow> True \<Longrightarrow> v = 0 \<or> v = 1"
      assume "p1 = skip_whitespace ?tail \<or> (at_dot p1 \<and> skip_whitespace p1 = p1)"
      then show ?thesis
      proof
        assume "p1 = skip_whitespace ?tail"
        then have p1: "p1 = CHR '')'' # rest" using sk by simp
        show ?thesis
          by (rule both_returnI [where v = v and p' = rest and w' = w1])
            (use a p1 in \<open>simp_all add: unfold_solver unfold_server peek_def char_tests\<close>)
      next
        assume d: "at_dot p1 \<and> skip_whitespace p1 = p1"
        then have pk: "peek p1 = CHR 0xC2" by (metis at_dot_def)
        show ?thesis
          by (rule both_returnI [where v = v and p' = p1
                and w' = "w1\<lparr>stderr := stderr w1 @ [missing_paren]\<rparr>"])
            (use a d pk in \<open>simp_all add: unfold_solver unfold_server\<close>)
      qed
    qed
  qed
next
  case factor_zero
  show ?case
  proof (intro allI)
    fix rest w
    show "both_return (solver_parse_factor (''0'' @ rest) w) (server_parse_factor (''0'' @ rest) w) w True
        (\<lambda>p'. p' = rest \<or> at_dot p')"
      by (rule both_returnI [where v = 0 and p' = rest and w' = w])
        (simp_all add: solver_parse_factor.simps [of "CHR ''0'' # rest"]
             server_parse_factor.simps [of "CHR ''0'' # rest"] peek_def char_tests)
  qed
next
  case factor_one
  show ?case
  proof (intro allI)
    fix rest w
    show "both_return (solver_parse_factor (''1'' @ rest) w) (server_parse_factor (''1'' @ rest) w) w True
        (\<lambda>p'. p' = rest \<or> at_dot p')"
      by (rule both_returnI [where v = 1 and p' = rest and w' = w])
        (simp_all add: solver_parse_factor.simps [of "CHR ''1'' # rest"]
             server_parse_factor.simps [of "CHR ''1'' # rest"] peek_def char_tests)
  qed
next
  case (factor_variable c)
  show ?case
  proof (intro allI)
    fix rest w
    show "both_return (solver_parse_factor ([c] @ rest) w) (server_parse_factor ([c] @ rest) w) w True
        (\<lambda>p'. p' = rest \<or> at_dot p')"
      by (rule both_returnI [where v = "g_var_mapping w c" and p' = rest and w' = w])
        (use factor_variable isalpha_other [OF factor_variable] in
          \<open>simp_all add: solver_parse_factor.simps [of "c # rest"]
             server_parse_factor.simps [of "c # rest"] peek_def boolean_mapping_def\<close>)
  qed
next
  case (factor_space c f)
  show ?case
  proof (intro allI)
    fix rest w
    have "skip_whitespace ((c # f) @ rest) = skip_whitespace (f @ rest)"
      using factor_space.hyps(1) by (simp add: isspace_not_NUL)
    then have "solver_parse_factor ((c # f) @ rest) w = solver_parse_factor (f @ rest) w"
      "server_parse_factor ((c # f) @ rest) w = server_parse_factor (f @ rest) w"
      by (metis solver_parse_factor_skip, metis server_parse_factor_skip)
    with factor_space.IH show
      "both_return (solver_parse_factor ((c # f) @ rest) w)
         (server_parse_factor ((c # f) @ rest) w) w True (\<lambda>p'. p' = rest \<or> at_dot p')"
      by simp
  qed
next
  case term_rest_empty
  show ?case by simp
next
  case (term_rest_and ws f r)
  show ?case by simp
next
  case (term_of_factors f r)
  show ?case
  proof (intro allI)
    fix rest w
    from term_of_factors.IH(1) [rule_format, of "r @ rest" w] show
      "both_return (solver_parse_term ((f @ r) @ rest) w) (server_parse_term ((f @ r) @ rest) w) w True
         (after_term rest)"
    proof (rule both_returnE)
      fix v p1 w1
      assume a: "solver_parse_factor (f @ r @ rest) w = Inr (v, p1, w1)"
        "server_parse_factor (f @ r @ rest) w = (v, p1, w1)"
        "g_var_mapping w1 = g_var_mapping w"
        "boolean_mapping (g_var_mapping w) \<Longrightarrow> True \<Longrightarrow> v = 0 \<or> v = 1"
      assume "p1 = r @ rest \<or> at_dot p1"
      with grammar_term_rest_cases [OF term_of_factors.hyps(2)]
      have c: "after_term rest (skip_whitespace p1)" by auto
      show ?thesis
        by (rule both_returnI [where v = v and p' = "skip_whitespace p1" and w' = w1])
          (use a c in \<open>simp_all add: solver_parse_term.simps server_parse_term.simps
             solver_term_loop_returns server_term_loop_returns\<close>)
    qed
  qed
next
  case expression_rest_empty
  show ?case
  proof (intro allI impI)
    fix rest w v
    assume "no_plus rest"
    then show "both_return (solver_expression_loop v (skip_whitespace ([] @ rest)) w)
          (server_expression_loop v (skip_whitespace ([] @ rest)) w) w (v = 0 \<or> v = 1)
          (after_term rest)"
      by (intro both_returnI [where v = v and p' = "skip_whitespace rest" and w' = w])
        (simp_all add: no_plus_def solver_expression_loop.simps server_expression_loop.simps)
  qed
next
  case (expression_rest_or ws t r)
  show ?case
  proof (intro allI impI)
    fix rest w v
    assume np: "no_plus rest"
    let ?tail = "t @ r @ rest"
    have sk: "skip_whitespace (ws @ CHR ''+'' # ?tail) = CHR ''+'' # ?tail"
      using expression_rest_or.hyps(1) by (simp add: skip_whitespace_spaces char_tests)
    have unfold_solver: "solver_expression_loop v (CHR ''+'' # ?tail) w =
        (case solver_parse_term ?tail w of
           Inl e \<Rightarrow> Inl e
         | Inr (term_value, p1, w1) \<Rightarrow>
             solver_expression_loop (if v \<noteq> 0 \<or> term_value \<noteq> 0 then 1 else 0)
               (skip_whitespace p1) w1)"
      by (simp add: solver_expression_loop.simps [of v "CHR ''+'' # ?tail"] peek_def
          solver_parse_term_skip)
    have unfold_server: "server_expression_loop v (CHR ''+'' # ?tail) w =
        (case server_parse_term ?tail w of
           (rhs, p1, w1) \<Rightarrow>
             server_expression_loop (if v \<noteq> 0 \<or> rhs \<noteq> 0 then 1 else 0)
               (skip_whitespace p1) w1)"
      by (simp add: server_expression_loop.simps [of v "CHR ''+'' # ?tail"] peek_def
          server_parse_term_skip)
    from expression_rest_or.IH(1) [rule_format, of "r @ rest" w] show
      "both_return (solver_expression_loop v (skip_whitespace ((ws @ ''+'' @ t @ r) @ rest)) w)
          (server_expression_loop v (skip_whitespace ((ws @ ''+'' @ t @ r) @ rest)) w) w (v = 0 \<or> v = 1)
          (after_term rest)"
    proof (rule both_returnE)
      fix tv :: int and p1 w1
      let ?v = "if v \<noteq> 0 \<or> tv \<noteq> 0 then 1 else 0 :: int"
      assume a: "solver_parse_term (t @ r @ rest) w = Inr (tv, p1, w1)"
        "server_parse_term (t @ r @ rest) w = (tv, p1, w1)"
        "g_var_mapping w1 = g_var_mapping w"
      assume "p1 = skip_whitespace (r @ rest) \<or> (at_dot p1 \<and> skip_whitespace p1 = p1)"
      then show ?thesis
      proof
        assume p1: "p1 = skip_whitespace (r @ rest)"
        from expression_rest_or.IH(2) [rule_format, OF np, of ?v w1] show ?thesis
        proof (rule both_returnE)
          fix v' p' w'
          assume b: "solver_expression_loop ?v (skip_whitespace (r @ rest)) w1 = Inr (v', p', w')"
            "server_expression_loop ?v (skip_whitespace (r @ rest)) w1 = (v', p', w')"
            "after_term rest p'" "g_var_mapping w' = g_var_mapping w1"
            "boolean_mapping (g_var_mapping w1) \<Longrightarrow> ?v = 0 \<or> ?v = 1 \<Longrightarrow> v' = 0 \<or> v' = 1"
          show ?thesis
            by (rule both_returnI [where v = v' and p' = p' and w' = w'])
              (use a b p1 in \<open>simp_all add: sk unfold_solver unfold_server\<close>)
        qed
      next
        assume d: "at_dot p1 \<and> skip_whitespace p1 = p1"
        show ?thesis
          by (rule both_returnI [where v = ?v and p' = p1 and w' = w1])
            (use a d solver_expression_loop_at_dot [of p1 ?v w1] server_expression_loop_at_dot [of p1 ?v w1]
              in \<open>simp_all add: sk unfold_solver unfold_server\<close>)
      qed
    qed
  qed
next
  case (expression_of_terms t r)
  show ?case
  proof (intro allI impI)
    fix rest w
    assume np: "no_plus rest"
    from expression_of_terms.IH(1) [rule_format, of "r @ rest" w] show
      "both_return (solver_parse_expression ((t @ r) @ rest) w)
         (server_parse_expression ((t @ r) @ rest) w) w True (after_term rest)"
    proof (rule both_returnE)
      fix v p1 w1
      assume a: "solver_parse_term (t @ r @ rest) w = Inr (v, p1, w1)"
        "server_parse_term (t @ r @ rest) w = (v, p1, w1)"
        "g_var_mapping w1 = g_var_mapping w"
        "boolean_mapping (g_var_mapping w) \<Longrightarrow> True \<Longrightarrow> v = 0 \<or> v = 1"
      assume "p1 = skip_whitespace (r @ rest) \<or> (at_dot p1 \<and> skip_whitespace p1 = p1)"
      then show ?thesis
      proof
        assume p1: "p1 = skip_whitespace (r @ rest)"
        from expression_of_terms.IH(2) [rule_format, OF np, of v w1] show ?thesis
        proof (rule both_returnE)
          fix v' p' w'
          assume b: "solver_expression_loop v (skip_whitespace (r @ rest)) w1 = Inr (v', p', w')"
            "server_expression_loop v (skip_whitespace (r @ rest)) w1 = (v', p', w')"
            "after_term rest p'" "g_var_mapping w' = g_var_mapping w1"
            "boolean_mapping (g_var_mapping w1) \<Longrightarrow> v = 0 \<or> v = 1 \<Longrightarrow> v' = 0 \<or> v' = 1"
          show ?thesis
            by (rule both_returnI [where v = v' and p' = p' and w' = w'])
              (use a b p1 in \<open>simp_all add: solver_parse_expression.simps server_parse_expression.simps\<close>)
        qed
      next
        assume d: "at_dot p1 \<and> skip_whitespace p1 = p1"
        show ?thesis
          by (rule both_returnI [where v = v and p' = p1 and w' = w1])
            (use a d solver_expression_loop_at_dot [of p1 v w1] server_expression_loop_at_dot [of p1 v w1]
              in \<open>simp_all add: solver_parse_expression.simps server_parse_expression.simps\<close>)
      qed
    qed
  qed
qed

lemma no_plus_spaces: "spaces ws \<Longrightarrow> no_plus ws"
  using skip_whitespace_spaces [of ws "[]"] by (simp add: no_plus_def peek_def NUL_def)

lemma conforms_both:
  assumes "conforms s"
  shows "\<exists>v p' w'. solver_parse_expression s w = Inr (v, p', w') \<and>
           server_parse_expression s w = (v, p', w') \<and>
           (boolean_mapping (g_var_mapping w) \<longrightarrow> v = 0 \<or> v = 1)"
proof -
  from assms obtain e ws where e: "grammar_expression e" "spaces ws" "s = e @ ws"
    unfolding conforms_def by blast
  from grammar_parse(5) [OF e(1), rule_format, OF no_plus_spaces [OF e(2)], of w] e(3)
  show ?thesis unfolding both_return_def by auto
qed

lemma conforms_variable: "isalpha c \<Longrightarrow> conforms [c]"
proof -
  assume "isalpha c"
  then have "grammar_factor [c]" by (rule factor_variable)
  then have "grammar_term ([c] @ [])" by (rule term_of_factors) (rule term_rest_empty)
  then have "grammar_expression (([c] @ []) @ [])"
    by (rule expression_of_terms) (rule expression_rest_empty)
  then show ?thesis unfolding conforms_def spaces_def by force
qed

lemma conforms_dot_example: "conforms (''(A '' @ middle_dot_utf8 @ '' B) + !1'')"
proof -
  have sp: "spaces '' ''" "spaces []" by (simp_all add: spaces_def isspace_def)
  have A: "grammar_factor ''A''" by (rule factor_variable) (simp add: isalpha_def)
  have B: "grammar_factor '' B''"
    by (rule factor_space, simp add: isspace_def, rule factor_variable) (simp add: isalpha_def)
  have "grammar_term_rest ('' '' @ middle_dot_utf8 @ '' B'' @ [])"
    by (rule term_rest_and [OF sp(1) B term_rest_empty])
  with A have "grammar_term (''A'' @ '' '' @ middle_dot_utf8 @ '' B'' @ [])"
    by (rule term_of_factors)
  then have "grammar_expression ((''A'' @ '' '' @ middle_dot_utf8 @ '' B'' @ []) @ [])"
    by (rule expression_of_terms) (rule expression_rest_empty)
  then have "grammar_factor (CHR ''('' # ((''A'' @ '' '' @ middle_dot_utf8 @ '' B'' @ []) @ []) @ [] @ '')'')"
    using sp(2) by (rule factor_paren)
  then have t1: "grammar_term ((CHR ''('' # ((''A'' @ '' '' @ middle_dot_utf8 @ '' B'' @ []) @ []) @ [] @ '')'') @ [])"
    by (rule term_of_factors) (rule term_rest_empty)
  have "grammar_factor '' !1''"
    by (rule factor_space, simp add: isspace_def, rule factor_not, rule factor_one)
  then have "grammar_term ('' !1'' @ [])" by (rule term_of_factors) (rule term_rest_empty)
  then have "grammar_expression_rest ('' '' @ ''+'' @ ('' !1'' @ []) @ [])"
    by (rule expression_rest_or [OF sp(1) _ expression_rest_empty])
  with t1 have "grammar_expression (((CHR ''('' # ((''A'' @ '' '' @ middle_dot_utf8 @ '' B'' @ []) @ []) @ [] @ '')'') @ [])
      @ ('' '' @ ''+'' @ ('' !1'' @ []) @ []))"
    by (rule expression_of_terms)
  then have "grammar_expression (''(A '' @ middle_dot_utf8 @ '' B) + !1'')" by simp
  then show ?thesis unfolding conforms_def using sp(2) by force
qed

subsection \<open>The state matters through the global mapping only\<close>

lemma set_skip_whitespace: "set (skip_whitespace p) \<subseteq> set p"
  by (induction p) auto

lemma set_tl: "set (tl p) \<subseteq> set p"
  by (cases p) auto

lemma agree_mono: "agree q r1 r2 \<Longrightarrow> set q \<subseteq> set p \<Longrightarrow> agree p r1 r2"
  by (auto simp: agree_def split: sum.splits)

lemma agree_Inl: "agree p (Inl e) r2 \<Longrightarrow> r2 = Inl e"
  by (simp add: agree_def)

lemma agree_Inr:
  assumes "agree p (Inr (v, p', w1)) r2"
  obtains w2 where "r2 = Inr (v, p', w2)" "g_var_mapping w2 = g_var_mapping w1" "set p' \<subseteq> set p"
  using assms by (auto simp: agree_def)

lemma solver_agree:
  "\<forall>w2. g_var_mapping w2 = g_var_mapping w \<longrightarrow>
     agree p (solver_parse_expression p w) (solver_parse_expression p w2)"
  "\<forall>w2. g_var_mapping w2 = g_var_mapping w \<longrightarrow>
     agree p (solver_expression_loop v p w) (solver_expression_loop v p w2)"
  "\<forall>w2. g_var_mapping w2 = g_var_mapping w \<longrightarrow>
     agree p (solver_parse_term p w) (solver_parse_term p w2)"
  "\<forall>w2. g_var_mapping w2 = g_var_mapping w \<longrightarrow>
     agree p (solver_term_loop v p w) (solver_term_loop v p w2)"
  "\<forall>w2. g_var_mapping w2 = g_var_mapping w \<longrightarrow>
     agree p (solver_parse_factor p w) (solver_parse_factor p w2)"
proof (induct p w and v p w and p w and v p w and p w
    rule: solver_parse_expression_solver_expression_loop_solver_parse_term_solver_term_loop_solver_parse_factor.induct)
  case (1 p w)
  show ?case
  proof (intro allI impI)
    fix w2 :: world assume g: "g_var_mapping w2 = g_var_mapping w"
    from 1(1) g have A: "agree p (solver_parse_term p w) (solver_parse_term p w2)" by blast
    show "agree p (solver_parse_expression p w) (solver_parse_expression p w2)"
    proof (cases "solver_parse_term p w")
      case (Inl e)
      with A have "solver_parse_term p w2 = Inl e" by (simp add: agree_Inl)
      with Inl show ?thesis by (simp add: solver_parse_expression.simps agree_def)
    next
      case (Inr b)
      obtain v p1 w1 where b: "b = (v, p1, w1)" by (cases b) auto
      from A Inr b obtain w2' where w2': "solver_parse_term p w2 = Inr (v, p1, w2')"
        "g_var_mapping w2' = g_var_mapping w1" "set p1 \<subseteq> set p"
        by (auto elim: agree_Inr)
      from 1(2) [OF Inr b [symmetric] refl] w2'(2)
      have "agree (skip_whitespace p1) (solver_expression_loop v (skip_whitespace p1) w1)
              (solver_expression_loop v (skip_whitespace p1) w2')" by blast
      then have "agree p (solver_expression_loop v (skip_whitespace p1) w1)
              (solver_expression_loop v (skip_whitespace p1) w2')"
        using set_skip_whitespace [of p1] w2'(3) by (blast intro: agree_mono)
      with Inr b w2'(1) show ?thesis by (simp add: solver_parse_expression.simps)
    qed
  qed
next
  case (2 v p w)
  show ?case
  proof (intro allI impI)
    fix w2 :: world assume g: "g_var_mapping w2 = g_var_mapping w"
    show "agree p (solver_expression_loop v p w) (solver_expression_loop v p w2)"
    proof (cases "peek p = CHR ''+''")
      case False
      with g show ?thesis by (simp add: solver_expression_loop.simps agree_def)
    next
      case True
      let ?q = "skip_whitespace (tl p)"
      have q: "set ?q \<subseteq> set p" using set_skip_whitespace [of "tl p"] set_tl [of p] by blast
      from 2(1) [OF True] g have A: "agree ?q (solver_parse_term ?q w) (solver_parse_term ?q w2)" by blast
      show ?thesis
      proof (cases "solver_parse_term ?q w")
        case (Inl e)
        with A have "solver_parse_term ?q w2 = Inl e" by (simp add: agree_Inl)
        with Inl True show ?thesis
          by (simp add: solver_expression_loop.simps [of v p] agree_def)
      next
        case (Inr b)
        obtain tv p1 w1 where b: "b = (tv, p1, w1)" by (cases b) auto
        from A Inr b obtain w2' where w2': "solver_parse_term ?q w2 = Inr (tv, p1, w2')"
          "g_var_mapping w2' = g_var_mapping w1" "set p1 \<subseteq> set ?q"
          by (auto elim: agree_Inr)
        let ?v = "if v \<noteq> 0 \<or> tv \<noteq> 0 then 1 else 0 :: int"
        from 2(2) [OF True Inr b [symmetric] refl] w2'(2)
        have "agree (skip_whitespace p1) (solver_expression_loop ?v (skip_whitespace p1) w1)
                (solver_expression_loop ?v (skip_whitespace p1) w2')" by blast
        then have "agree p (solver_expression_loop ?v (skip_whitespace p1) w1)
                (solver_expression_loop ?v (skip_whitespace p1) w2')"
          using set_skip_whitespace [of p1] w2'(3) q by (blast intro: agree_mono)
        with Inr b w2'(1) True show ?thesis
          by (simp add: solver_expression_loop.simps [of v p])
      qed
    qed
  qed
next
  case (3 p w)
  show ?case
  proof (intro allI impI)
    fix w2 :: world assume g: "g_var_mapping w2 = g_var_mapping w"
    from 3(1) g have A: "agree p (solver_parse_factor p w) (solver_parse_factor p w2)" by blast
    show "agree p (solver_parse_term p w) (solver_parse_term p w2)"
    proof (cases "solver_parse_factor p w")
      case (Inl e)
      with A have "solver_parse_factor p w2 = Inl e" by (simp add: agree_Inl)
      with Inl show ?thesis by (simp add: solver_parse_term.simps agree_def)
    next
      case (Inr b)
      obtain v p1 w1 where b: "b = (v, p1, w1)" by (cases b) auto
      from A Inr b obtain w2' where w2': "solver_parse_factor p w2 = Inr (v, p1, w2')"
        "g_var_mapping w2' = g_var_mapping w1" "set p1 \<subseteq> set p"
        by (auto elim: agree_Inr)
      with Inr b show ?thesis
        using set_skip_whitespace [of p1]
        by (auto simp: solver_parse_term.simps solver_term_loop_returns agree_def)
    qed
  qed
next
  case (4 v p w)
  show ?case by (simp add: solver_term_loop_returns agree_def)
next
  case (5 p0 w)
  show ?case
  proof (intro allI impI)
    fix w2 :: world assume g: "g_var_mapping w2 = g_var_mapping w"
    let ?p = "skip_whitespace p0"
    have sk: "set ?p \<subseteq> set p0" by (rule set_skip_whitespace)
    have tl: "set (tl ?p) \<subseteq> set p0" using sk set_tl [of ?p] by blast
    consider (not) "peek ?p = CHR ''!''" | (paren) "peek ?p \<noteq> CHR ''!''" "peek ?p = CHR ''(''"
      | (other) "peek ?p \<noteq> CHR ''!''" "peek ?p \<noteq> CHR ''(''" by blast
    then show "agree p0 (solver_parse_factor p0 w) (solver_parse_factor p0 w2)"
    proof cases
      case not
      from 5(1) [OF refl not] g
      have A: "agree (tl ?p) (solver_parse_factor (tl ?p) w) (solver_parse_factor (tl ?p) w2)" by blast
      show ?thesis
      proof (cases "solver_parse_factor (tl ?p) w")
        case (Inl e)
        with A have "solver_parse_factor (tl ?p) w2 = Inl e" by (simp add: agree_Inl)
        with Inl not show ?thesis by (simp add: solver_parse_factor.simps [of p0] agree_def)
      next
        case (Inr b)
        obtain v p1 w1 where b: "b = (v, p1, w1)" by (cases b) auto
        from A Inr b obtain w2' where w2': "solver_parse_factor (tl ?p) w2 = Inr (v, p1, w2')"
          "g_var_mapping w2' = g_var_mapping w1" "set p1 \<subseteq> set (tl ?p)"
          by (auto elim: agree_Inr)
        with Inr b not tl show ?thesis
          by (auto simp: solver_parse_factor.simps [of p0] agree_def)
      qed
    next
      case paren
      from 5(2) [OF refl paren] g
      have A: "agree (tl ?p) (solver_parse_expression (tl ?p) w) (solver_parse_expression (tl ?p) w2)"
        by blast
      show ?thesis
      proof (cases "solver_parse_expression (tl ?p) w")
        case (Inl e)
        with A have "solver_parse_expression (tl ?p) w2 = Inl e" by (simp add: agree_Inl)
        with Inl paren show ?thesis by (simp add: solver_parse_factor.simps [of p0] agree_def)
      next
        case (Inr b)
        obtain v p1 w1 where b: "b = (v, p1, w1)" by (cases b) auto
        from A Inr b obtain w2' where w2': "solver_parse_expression (tl ?p) w2 = Inr (v, p1, w2')"
          "g_var_mapping w2' = g_var_mapping w1" "set p1 \<subseteq> set (tl ?p)"
          by (auto elim: agree_Inr)
        have "set (skip_whitespace p1) \<subseteq> set p0" "set (tl (skip_whitespace p1)) \<subseteq> set p0"
          using set_skip_whitespace [of p1] set_tl [of "skip_whitespace p1"] w2'(3) tl by blast+
        with Inr b w2'(1,2) paren show ?thesis
          by (simp add: solver_parse_factor.simps [of p0] agree_def Let_def)
      qed
    next
      case other
      with g sk tl show ?thesis
        by (simp add: solver_parse_factor.simps [of p0] agree_def Let_def)
    qed
  qed
qed


lemma server_agree_mono: "server_agree q r1 r2 \<Longrightarrow> set q \<subseteq> set p \<Longrightarrow> server_agree p r1 r2"
  by (auto simp: server_agree_def)

lemma server_agreeE:
  assumes "server_agree p r1 r2"
  obtains v p' w1 w2 where "r1 = (v, p', w1)" "r2 = (v, p', w2)"
    "g_var_mapping w2 = g_var_mapping w1" "set p' \<subseteq> set p"
  using assms by (cases r1) (auto simp: server_agree_def)

lemma server_agree_all:
  "\<forall>w2. g_var_mapping w2 = g_var_mapping w \<longrightarrow>
     server_agree p (server_parse_expression p w) (server_parse_expression p w2)"
  "\<forall>w2. g_var_mapping w2 = g_var_mapping w \<longrightarrow>
     server_agree p (server_expression_loop v p w) (server_expression_loop v p w2)"
  "\<forall>w2. g_var_mapping w2 = g_var_mapping w \<longrightarrow>
     server_agree p (server_parse_term p w) (server_parse_term p w2)"
  "\<forall>w2. g_var_mapping w2 = g_var_mapping w \<longrightarrow>
     server_agree p (server_term_loop v p w) (server_term_loop v p w2)"
  "\<forall>w2. g_var_mapping w2 = g_var_mapping w \<longrightarrow>
     server_agree p (server_parse_factor p w) (server_parse_factor p w2)"
proof (induct p w and v p w and p w and v p w and p w
    rule: server_parse_expression_server_expression_loop_server_parse_term_server_term_loop_server_parse_factor.induct)
  case (1 p w)
  show ?case
  proof (intro allI impI)
    fix w2 :: world assume g: "g_var_mapping w2 = g_var_mapping w"
    from 1(1) g have "server_agree p (server_parse_term p w) (server_parse_term p w2)" by blast
    then obtain v p1 w1 w2' where t: "server_parse_term p w = (v, p1, w1)"
      "server_parse_term p w2 = (v, p1, w2')" "g_var_mapping w2' = g_var_mapping w1" "set p1 \<subseteq> set p"
      by (rule server_agreeE)
    from 1(2) [OF t(1) [symmetric] refl] t(3)
    have "server_agree (skip_whitespace p1) (server_expression_loop v (skip_whitespace p1) w1)
            (server_expression_loop v (skip_whitespace p1) w2')" by blast
    then have "server_agree p (server_expression_loop v (skip_whitespace p1) w1)
            (server_expression_loop v (skip_whitespace p1) w2')"
      using set_skip_whitespace [of p1] t(4) by (blast intro: server_agree_mono)
    with t show "server_agree p (server_parse_expression p w) (server_parse_expression p w2)"
      by (simp add: server_parse_expression.simps)
  qed
next
  case (2 v p w)
  show ?case
  proof (intro allI impI)
    fix w2 :: world assume g: "g_var_mapping w2 = g_var_mapping w"
    show "server_agree p (server_expression_loop v p w) (server_expression_loop v p w2)"
    proof (cases "peek p = CHR ''+''")
      case False
      with g show ?thesis by (simp add: server_expression_loop.simps server_agree_def)
    next
      case True
      let ?q = "skip_whitespace (tl p)"
      have q: "set ?q \<subseteq> set p" using set_skip_whitespace [of "tl p"] set_tl [of p] by blast
      from 2(1) [OF True] g
      have "server_agree ?q (server_parse_term ?q w) (server_parse_term ?q w2)" by blast
      then obtain tv p1 w1 w2' where t: "server_parse_term ?q w = (tv, p1, w1)"
        "server_parse_term ?q w2 = (tv, p1, w2')" "g_var_mapping w2' = g_var_mapping w1"
        "set p1 \<subseteq> set ?q"
        by (rule server_agreeE)
      let ?v = "if v \<noteq> 0 \<or> tv \<noteq> 0 then 1 else 0 :: int"
      from 2(2) [OF True t(1) [symmetric] refl] t(3)
      have "server_agree (skip_whitespace p1) (server_expression_loop ?v (skip_whitespace p1) w1)
              (server_expression_loop ?v (skip_whitespace p1) w2')" by blast
      then have "server_agree p (server_expression_loop ?v (skip_whitespace p1) w1)
              (server_expression_loop ?v (skip_whitespace p1) w2')"
        using set_skip_whitespace [of p1] t(4) q by (blast intro: server_agree_mono)
      with t True show ?thesis
        by (simp add: server_expression_loop.simps [of v p])
    qed
  qed
next
  case (3 p w)
  show ?case
  proof (intro allI impI)
    fix w2 :: world assume g: "g_var_mapping w2 = g_var_mapping w"
    from 3(1) g have "server_agree p (server_parse_factor p w) (server_parse_factor p w2)" by blast
    then obtain v p1 w1 w2' where t: "server_parse_factor p w = (v, p1, w1)"
      "server_parse_factor p w2 = (v, p1, w2')" "g_var_mapping w2' = g_var_mapping w1" "set p1 \<subseteq> set p"
      by (rule server_agreeE)
    then show "server_agree p (server_parse_term p w) (server_parse_term p w2)"
      using set_skip_whitespace [of p1]
      by (auto simp: server_parse_term.simps server_term_loop_returns server_agree_def)
  qed
next
  case (4 v p w)
  show ?case by (simp add: server_term_loop_returns server_agree_def)
next
  case (5 p0 w)
  show ?case
  proof (intro allI impI)
    fix w2 :: world assume g: "g_var_mapping w2 = g_var_mapping w"
    let ?p = "skip_whitespace p0"
    have sk: "set ?p \<subseteq> set p0" by (rule set_skip_whitespace)
    have tl: "set (tl ?p) \<subseteq> set p0" using sk set_tl [of ?p] by blast
    consider (not) "peek ?p = CHR ''!''" | (paren) "peek ?p \<noteq> CHR ''!''" "peek ?p = CHR ''(''"
      | (other) "peek ?p \<noteq> CHR ''!''" "peek ?p \<noteq> CHR ''(''" by blast
    then show "server_agree p0 (server_parse_factor p0 w) (server_parse_factor p0 w2)"
    proof cases
      case not
      from 5(1) [OF refl not] g
      have "server_agree (tl ?p) (server_parse_factor (tl ?p) w) (server_parse_factor (tl ?p) w2)" by blast
      then obtain v p1 w1 w2' where t: "server_parse_factor (tl ?p) w = (v, p1, w1)"
        "server_parse_factor (tl ?p) w2 = (v, p1, w2')" "g_var_mapping w2' = g_var_mapping w1"
        "set p1 \<subseteq> set (tl ?p)"
        by (rule server_agreeE)
      with not tl show ?thesis
        by (auto simp: server_parse_factor.simps [of p0] server_agree_def)
    next
      case paren
      from 5(2) [OF refl paren] g
      have "server_agree (tl ?p) (server_parse_expression (tl ?p) w) (server_parse_expression (tl ?p) w2)"
        by blast
      then obtain v p1 w1 w2' where t: "server_parse_expression (tl ?p) w = (v, p1, w1)"
        "server_parse_expression (tl ?p) w2 = (v, p1, w2')" "g_var_mapping w2' = g_var_mapping w1"
        "set p1 \<subseteq> set (tl ?p)"
        by (rule server_agreeE)
      have "set (skip_whitespace p1) \<subseteq> set p0" "set (tl (skip_whitespace p1)) \<subseteq> set p0"
        using set_skip_whitespace [of p1] set_tl [of "skip_whitespace p1"] t(4) tl by blast+
      with t(1,2,3) paren show ?thesis
        by (simp add: server_parse_factor.simps [of p0] server_agree_def Let_def)
    next
      case other
      with g sk tl show ?thesis
        by (simp add: server_parse_factor.simps [of p0] server_agree_def Let_def)
    qed
  qed
qed

subsection \<open>The cursor stays inside the input\<close>

lemma peek_in_set: "peek q = NUL \<or> peek q \<in> set q"
  by (cases q) (auto simp: peek_def)

lemma solver_cursor_within:
  "solver_parse_expression p w = Inr (v, p', w') \<Longrightarrow> set p' \<subseteq> set p"
  using solver_agree(1) [rule_format, of w w p] by (auto simp: agree_def)

lemma server_cursor_within:
  "server_parse_expression p w = (v, p', w') \<Longrightarrow> set p' \<subseteq> set p"
  using server_agree_all(1) [rule_format, of w w p] by (auto simp: server_agree_def)

lemma no_paren_ahead:
  assumes "CHR '')'' \<notin> set cs" "set p1 \<subseteq> set cs"
  shows "peek (skip_whitespace p1) \<noteq> CHR '')''"
  using peek_in_set [of "skip_whitespace p1"] set_skip_whitespace [of p1] assms
  by (auto simp: NUL_def)

lemma skip_whitespace_only_spaces: "spaces ws \<Longrightarrow> skip_whitespace ws = []"
  using skip_whitespace_spaces [of ws "[]"] by simp

subsection \<open>The truth table\<close>

lemma collect_first_occurrences:
  "length (vars @ filter (\<lambda>c. c \<notin> set vars)
       (first_occurrences (filter isalpha (takeWhile (\<lambda>c. c \<noteq> NUL) s)))) \<le> 100 \<Longrightarrow>
   solver_collect_variables s vars =
     vars @ filter (\<lambda>c. c \<notin> set vars)
       (first_occurrences (filter isalpha (takeWhile (\<lambda>c. c \<noteq> NUL) s)))"
proof (induction s arbitrary: vars)
  case Nil
  then show ?case by simp
next
  case (Cons ch rest)
  let ?L = "first_occurrences (filter isalpha (takeWhile (\<lambda>c. c \<noteq> NUL) rest))"
  show ?case
  proof (cases "ch \<noteq> NUL \<and> isalpha ch")
    case False
    with Cons show ?thesis by auto
  next
    case True
    show ?thesis
    proof (cases "ch \<in> set vars")
      case in_vars: True
      have eq: "filter (\<lambda>c. c \<notin> set vars) (filter (\<lambda>d. d \<noteq> ch) ?L) = filter (\<lambda>c. c \<notin> set vars) ?L"
        using in_vars by (auto intro: filter_cong)
      with Cons.prems True in_vars have "length (vars @ filter (\<lambda>c. c \<notin> set vars) ?L) \<le> 100"
        by simp
      from Cons.IH [OF this] True in_vars eq show ?thesis
        by simp
    next
      case new: False
      have eq: "filter (\<lambda>c. c \<notin> set (vars @ [ch])) ?L =
                 filter (\<lambda>c. c \<notin> set vars) (filter (\<lambda>d. d \<noteq> ch) ?L)"
        by (auto intro: filter_cong)
      from Cons.prems True new have len: "length vars < 100" by simp
      from Cons.prems True new eq
      have "length ((vars @ [ch]) @ filter (\<lambda>c. c \<notin> set (vars @ [ch])) ?L) \<le> 100" by simp
      from Cons.IH [OF this] True new len eq show ?thesis
        by simp
    qed
  qed
qed

lemma collect_variable_set:
  "length (variable_set s) \<le> 100 \<Longrightarrow> solver_collect_variables s [] = variable_set s"
  using collect_first_occurrences [of "[]" s] by (simp add: variable_set_def)














lemma conforms_evaluates:
  "conforms expr \<Longrightarrow> \<exists>v w'. solver_evaluate_expr_with_mapping expr m w = Inr (v, w')"
  using conforms_both [of expr "w\<lparr>g_var_mapping := m\<rparr>"]
  by (auto simp: solver_evaluate_expr_with_mapping_def)






section \<open>The claims\<close>

subsection \<open>C1: unrecognized characters\<close>

text \<open>
  C1 (as amended). A character \<open>c\<close> that is none of whitespace, \<^verbatim>\<open>+\<close>, the middle dot, \<^verbatim>\<open>!\<close>,
  \<^verbatim>\<open>(\<close>, \<^verbatim>\<open>)\<close>, a digit or a letter never makes the parse fail; neither host has a syntax
  error result. Where a factor is expected, \<^verbatim>\<open>parse_factor\<close> gives the factor the value 0;
  \<^verbatim>\<open>solver.c\<close> steps over \<open>c\<close>, \<^verbatim>\<open>server.c\<close> leaves it in place. In front of \<open>c\<close> the loops of
  \<^verbatim>\<open>parse_expression\<close> and \<^verbatim>\<open>parse_term\<close> end and return the value computed so far.
\<close>

theorem unrecognized_character_no_error:
  assumes "\<not> grammar_byte c" "c \<noteq> NUL"
  shows "solver_parse_factor (c # cs) w = Inr (0, cs, w) \<and>
         server_parse_factor (c # cs) w = (0, c # cs, w) \<and>
         solver_expression_loop v (c # cs) w = Inr (v, c # cs, w) \<and>
         server_expression_loop v (c # cs) w = (v, c # cs, w) \<and>
         solver_term_loop v (c # cs) w = Inr (v, c # cs, w) \<and>
         server_term_loop v (c # cs) w = (v, c # cs, w)"
  using assms
  by (simp add: grammar_byte_def solver_parse_factor.simps [of "c # cs"]
      server_parse_factor.simps [of "c # cs"] solver_expression_loop.simps [of v "c # cs"]
      server_expression_loop.simps [of v "c # cs"] solver_term_loop_returns server_term_loop_returns
      peek_def)

theorem unrecognized_character_no_error_witness:
  "\<not> grammar_byte CHR ''$'' \<and> CHR ''$'' \<noteq> NUL \<and>
   solver_parse_factor ''$ B'' initial_world = Inr (0, '' B'', initial_world) \<and>
   server_parse_factor ''$ B'' initial_world = (0, ''$ B'', initial_world) \<and>
   solver_expression_loop 1 ''$ B'' initial_world = Inr (1, ''$ B'', initial_world)"
  using unrecognized_character_no_error [of "CHR ''$''" "'' B''" initial_world 1]
  by (simp add: grammar_byte_def char_tests)

text \<open>
  C1 as stated fails: \<^verbatim>\<open>"A $ B"\<close> is evaluated to 1 (the value of \<open>A\<close> under the default
  mapping) by both hosts.
\<close>

theorem unrecognized_character_accepted:
  "\<not> grammar_byte CHR ''$'' \<and> CHR ''$'' \<in> set ''A $ B'' \<and>
   returned (solver_evaluate_boolean_expression ''A $ B'' initial_world) = Inr 1 \<and>
   fst (server_evaluate_boolean_expression ''A $ B'' initial_world) = 1"
  by (simp add: evaluation grammar_byte_def)

subsection \<open>C2: a missing closing parenthesis\<close>

text \<open>
  C2 (as amended). An unmatched \<^verbatim>\<open>(\<close> does not make the parse fail; neither host has a
  syntax error result. When \<^verbatim>\<open>parse_factor\<close> has consumed a \<^verbatim>\<open>(\<close> (after optional
  whitespace) and the next character behind the expression it reads after it, and behind
  any whitespace, is not \<^verbatim>\<open>)\<close>, it writes the line \<^verbatim>\<open>Error: Missing closing parenthesis.\<close>
  to \<^verbatim>\<open>stderr\<close>, leaves the cursor at that character and returns the value of the inner
  expression as the value of the factor; this in both hosts, in \<^verbatim>\<open>solver.c\<close> provided reading
  the inner expression has kept the cursor inside the string. That next character is never
  \<^verbatim>\<open>)\<close> when no \<^verbatim>\<open>)\<close> occurs behind the \<^verbatim>\<open>(\<close>. A \<^verbatim>\<open>(\<close> that \<^verbatim>\<open>parse_factor\<close> never reaches is not
  reported: in \<^verbatim>\<open>A (B\<close> no factor is expected behind \<open>A\<close>, the parse ends in front of the
  \<^verbatim>\<open>(\<close>, returns the value of \<open>A\<close> and writes nothing.
\<close>

theorem unmatched_paren_reported:
  assumes "spaces ws"
  shows "(solver_parse_expression cs w = Inr (v, p1, w1) \<and> peek (skip_whitespace p1) \<noteq> CHR '')'' \<longrightarrow>
            solver_parse_factor (ws @ CHR ''('' # cs) w =
              Inr (v, skip_whitespace p1, w1\<lparr>stderr := stderr w1 @ [missing_paren]\<rparr>)) \<and>
         (server_parse_expression cs w = (v', p1', w1') \<and> peek (skip_whitespace p1') \<noteq> CHR '')'' \<longrightarrow>
            server_parse_factor (ws @ CHR ''('' # cs) w =
              (v', skip_whitespace p1', w1'\<lparr>stderr := stderr w1' @ [missing_paren]\<rparr>)) \<and>
         (solver_parse_expression cs w = Inr (v, p1, w1) \<and> CHR '')'' \<notin> set cs \<longrightarrow>
            peek (skip_whitespace p1) \<noteq> CHR '')'') \<and>
         (server_parse_expression cs w = (v', p1', w1') \<and> CHR '')'' \<notin> set cs \<longrightarrow>
            peek (skip_whitespace p1') \<noteq> CHR '')'') \<and>
         solver_evaluate_boolean_expression ''A (B'' w = Inr (1, w\<lparr>g_var_mapping := (\<lambda>_. 1)\<rparr>) \<and>
         server_evaluate_boolean_expression ''A (B'' w = (1, w\<lparr>g_var_mapping := (\<lambda>_. 1)\<rparr>)"
proof -
  from assms have sk: "skip_whitespace (ws @ CHR ''('' # cs) = CHR ''('' # cs"
    by (simp add: skip_whitespace_spaces char_tests)
  have solver: "solver_parse_factor (ws @ CHR ''('' # cs) w =
              Inr (v, skip_whitespace p1, w1\<lparr>stderr := stderr w1 @ [missing_paren]\<rparr>)"
    if "solver_parse_expression cs w = Inr (v, p1, w1)" "peek (skip_whitespace p1) \<noteq> CHR '')''"
    using that
    by (simp add: solver_parse_factor.simps [of "ws @ CHR ''('' # cs"] sk
        peek_def [of "CHR ''('' # cs"] char_tests)
  have server: "server_parse_factor (ws @ CHR ''('' # cs) w =
              (v', skip_whitespace p1', w1'\<lparr>stderr := stderr w1' @ [missing_paren]\<rparr>)"
    if "server_parse_expression cs w = (v', p1', w1')" "peek (skip_whitespace p1') \<noteq> CHR '')''"
    using that
    by (simp add: server_parse_factor.simps [of "ws @ CHR ''('' # cs"] sk
        peek_def [of "CHR ''('' # cs"] char_tests)
  have solver_no: "peek (skip_whitespace p1) \<noteq> CHR '')''"
    if "solver_parse_expression cs w = Inr (v, p1, w1)" "CHR '')'' \<notin> set cs"
    using no_paren_ahead [OF that(2) solver_cursor_within [OF that(1)]] .
  have server_no: "peek (skip_whitespace p1') \<noteq> CHR '')''"
    if "server_parse_expression cs w = (v', p1', w1')" "CHR '')'' \<notin> set cs"
    using no_paren_ahead [OF that(2) server_cursor_within [OF that(1)]] .
  have unreached_solver:
    "solver_evaluate_boolean_expression ''A (B'' w = Inr (1, w\<lparr>g_var_mapping := (\<lambda>_. 1)\<rparr>)"
    by (simp add: evaluation)
  have unreached_server:
    "server_evaluate_boolean_expression ''A (B'' w = (1, w\<lparr>g_var_mapping := (\<lambda>_. 1)\<rparr>)"
    by (simp add: evaluation)
  from solver server solver_no server_no unreached_solver unreached_server
  show ?thesis by blast
qed

theorem unmatched_paren_reported_witness:
  "spaces '' '' \<and>
   solver_parse_expression ''(A)'' initial_world = Inr (0, [], initial_world) \<and>
   server_parse_expression ''(A)'' initial_world = (0, [], initial_world) \<and>
   peek (skip_whitespace []) \<noteq> CHR '')'' \<and>
   solver_parse_factor '' ((A)'' initial_world =
     Inr (0, [], initial_world\<lparr>stderr := [missing_paren]\<rparr>) \<and>
   server_parse_factor '' ((A)'' initial_world =
     (0, [], initial_world\<lparr>stderr := [missing_paren]\<rparr>) \<and>
   solver_parse_expression ''A + B'' initial_world = Inr (0, [], initial_world) \<and>
   server_parse_expression ''A + B'' initial_world = (0, [], initial_world) \<and>
   CHR '')'' \<notin> set ''A + B'' \<and>
   solver_parse_factor ''(A + B'' initial_world =
     Inr (0, [], initial_world\<lparr>stderr := [missing_paren]\<rparr>) \<and>
   server_parse_factor ''(A + B'' initial_world =
     (0, [], initial_world\<lparr>stderr := [missing_paren]\<rparr>)"
proof -
  have s: "spaces '' ''" "spaces []" by (simp_all add: spaces_def char_tests)
  have a: "solver_parse_expression ''(A)'' initial_world = Inr (0, [], initial_world)"
    by (simp add: evaluation)
  have b: "server_parse_expression ''(A)'' initial_world = (0, [], initial_world)"
    by (simp add: evaluation)
  have c: "peek (skip_whitespace []) \<noteq> CHR '')''" by (simp add: peek_def NUL_def)
  have d: "solver_parse_expression ''A + B'' initial_world = Inr (0, [], initial_world)"
    by (simp add: evaluation)
  have e: "server_parse_expression ''A + B'' initial_world = (0, [], initial_world)"
    by (simp add: evaluation)
  have f: "CHR '')'' \<notin> set ''A + B''" by simp
  from unmatched_paren_reported [OF s(1), of "''(A)''" initial_world 0 "[]" initial_world 0 "[]" initial_world]
    a b c
  have "solver_parse_factor ('' '' @ CHR ''('' # ''(A)'') initial_world =
          Inr (0, skip_whitespace [], initial_world\<lparr>stderr := stderr initial_world @ [missing_paren]\<rparr>)"
       "server_parse_factor ('' '' @ CHR ''('' # ''(A)'') initial_world =
          (0, skip_whitespace [], initial_world\<lparr>stderr := stderr initial_world @ [missing_paren]\<rparr>)"
    by blast+
  then have g: "solver_parse_factor '' ((A)'' initial_world =
     Inr (0, [], initial_world\<lparr>stderr := [missing_paren]\<rparr>)"
     "server_parse_factor '' ((A)'' initial_world =
     (0, [], initial_world\<lparr>stderr := [missing_paren]\<rparr>)"
    by (simp_all add: initial_world_def)
  from unmatched_paren_reported [OF s(2), of "''A + B''" initial_world 0 "[]" initial_world 0 "[]" initial_world]
    d e f
  have "solver_parse_factor ([] @ CHR ''('' # ''A + B'') initial_world =
          Inr (0, skip_whitespace [], initial_world\<lparr>stderr := stderr initial_world @ [missing_paren]\<rparr>)"
       "server_parse_factor ([] @ CHR ''('' # ''A + B'') initial_world =
          (0, skip_whitespace [], initial_world\<lparr>stderr := stderr initial_world @ [missing_paren]\<rparr>)"
    by blast+
  then have h: "solver_parse_factor ''(A + B'' initial_world =
     Inr (0, [], initial_world\<lparr>stderr := [missing_paren]\<rparr>)"
     "server_parse_factor ''(A + B'' initial_world =
     (0, [], initial_world\<lparr>stderr := [missing_paren]\<rparr>)"
    by (simp_all add: initial_world_def)
  from s(1) a b c d e f g h show ?thesis by blast
qed

text \<open>
  C2 as stated fails: the specification's own example, \<^verbatim>\<open>(A\<close> \<open>\<cdot>\<close> \<^verbatim>\<open>B\<close>, is evaluated to 1 by
  both hosts, with the message on \<^verbatim>\<open>stderr\<close>.
\<close>

theorem missing_paren_accepted:
  "solver_evaluate_boolean_expression (''(A '' @ middle_dot_utf8 @ '' B'') initial_world =
     Inr (1, \<lparr>g_var_mapping = (\<lambda>_. 1), stderr = [missing_paren]\<rparr>) \<and>
   server_evaluate_boolean_expression (''(A '' @ middle_dot_utf8 @ '' B'') initial_world =
     (1, \<lparr>g_var_mapping = (\<lambda>_. 1), stderr = [missing_paren]\<rparr>)"
  by (simp add: evaluation)

subsection \<open>C3: the rows of the truth table\<close>





subsection \<open>C4: variables without an assignment are true\<close>

text \<open>
  C4. A variable letter that has no assignment evaluates to true.
  \<^verbatim>\<open>evaluate_boolean_expression\<close> takes no assignment: it evaluates every expression as
  \<^verbatim>\<open>evaluate_expr_with_mapping\<close> does under the mapping that is 1 everywhere. Under it every
  letter \<open>c\<close>, as an expression of its own, evaluates to 1, and \<^verbatim>\<open>"A + B"\<close> evaluates to 1, in
  both hosts. The
  mapping that \<^verbatim>\<open>generate_truth_table\<close> builds for a row starts from all ones, and an entry
  that is not one of the row's variables keeps the value 1.
\<close>

theorem default_true_evaluation:
  "solver_evaluate_boolean_expression expr w = solver_evaluate_expr_with_mapping expr (\<lambda>_. 1) w \<and>
   server_evaluate_boolean_expression expr w = server_evaluate_expr_with_mapping expr (\<lambda>_. 1) w \<and>
   (isalpha c \<longrightarrow>
      returned (solver_evaluate_boolean_expression [c] w) = Inr 1 \<and>
      fst (server_evaluate_boolean_expression [c] w) = 1) \<and>
   returned (solver_evaluate_boolean_expression ''A + B'' w) = Inr 1 \<and>
   fst (server_evaluate_boolean_expression ''A + B'' w) = 1 \<and>
   (x \<notin> set vars \<longrightarrow> fst (solver_assign_row (length vars) i 0 vars (\<lambda>_. 1) []) x = 1)"
proof (intro conjI impI)
  show "solver_evaluate_boolean_expression expr w = solver_evaluate_expr_with_mapping expr (\<lambda>_. 1) w"
    by (simp add: solver_evaluate_boolean_expression_def solver_evaluate_expr_with_mapping_def)
  show "server_evaluate_boolean_expression expr w = server_evaluate_expr_with_mapping expr (\<lambda>_. 1) w"
    by (simp add: server_evaluate_boolean_expression_def server_evaluate_expr_with_mapping_def)
next
  assume a: "isalpha c"
  show "returned (solver_evaluate_boolean_expression [c] w) = Inr 1"
    by (simp only: solver_evaluate_boolean_expression_def solver_lone_variable [OF a])
      (simp add: returned_def)
  show "fst (server_evaluate_boolean_expression [c] w) = 1"
    by (simp only: server_evaluate_boolean_expression_def server_lone_variable [OF a]) simp
next
  show "returned (solver_evaluate_boolean_expression ''A + B'' w) = Inr 1"
    by (simp add: evaluation)
  show "fst (server_evaluate_boolean_expression ''A + B'' w) = 1"
    by (simp add: evaluation)
next
  assume "x \<notin> set vars"
  then show "fst (solver_assign_row (length vars) i 0 vars (\<lambda>_. 1) []) x = 1"
    by (simp add: assign_row_other)
qed

theorem default_true_evaluation_witness:
  "isalpha CHR ''q'' \<and> returned (solver_evaluate_boolean_expression ''q'' initial_world) = Inr 1 \<and>
   fst (server_evaluate_boolean_expression ''q'' initial_world) = 1 \<and>
   CHR ''C'' \<notin> set ''AB'' \<and> fst (solver_assign_row 2 0 0 ''AB'' (\<lambda>_. 1) []) CHR ''C'' = 1"
proof -
  have a: "isalpha CHR ''q''" by (simp add: isalpha_def)
  have n: "CHR ''C'' \<notin> set ''AB''" by simp
  from default_true_evaluation [of "''q''" initial_world "CHR ''q''" "CHR ''C''" "''AB''" 0] a n
  have "returned (solver_evaluate_boolean_expression ''q'' initial_world) = Inr 1"
    "fst (server_evaluate_boolean_expression ''q'' initial_world) = 1"
    "fst (solver_assign_row (length ''AB'') 0 0 ''AB'' (\<lambda>_. 1) []) CHR ''C'' = 1"
    by blast+
  with a n show ?thesis by simp
qed

subsection \<open>C5: precedence\<close>

text \<open>
  C5. NOT binds tighter than AND, AND tighter than OR, and parentheses override. The code
  does not give AND its place: \<^verbatim>\<open>parse_term\<close> never recognises the middle dot (see C7), so
  both hosts evaluate \<^verbatim>\<open>A + B\<close> \<open>\<cdot>\<close> \<^verbatim>\<open>C\<close> and \<^verbatim>\<open>(A + B)\<close> \<open>\<cdot>\<close> \<^verbatim>\<open>C\<close> as \<^verbatim>\<open>A + B\<close>, under every
  mapping. Under \<open>A = 0\<close>, \<open>B = 1\<close>, \<open>C = 0\<close> the former returns 1, where \<open>A\<close> or (\<open>B\<close> and \<open>C\<close>)
  is 0; under \<open>A = 1\<close>, \<open>B = 0\<close>, \<open>C = 0\<close> the latter returns 1, where (\<open>A\<close> or \<open>B\<close>) and \<open>C\<close>
  is 0. Under \<open>A = 0\<close>, \<open>B = 0\<close>, \<open>C = 1\<close> the three expressions of the claim all return 0.
  NOT and the parentheses are treated as the claim says: \<^verbatim>\<open>!A + B\<close> is \<^verbatim>\<open>(!A) + B\<close> under every
  mapping, and under \<open>A = 0\<close>, \<open>B = 1\<close> it gives 1 where \<^verbatim>\<open>!(A + B)\<close> gives 0.
\<close>

theorem and_precedence_lost:
  "returned (solver_evaluate_expr_with_mapping (''A + B '' @ middle_dot_utf8 @ '' C'')
     ((\<lambda>_. 0)(CHR ''B'' := 1)) w) = Inr 1 \<and>
   fst (server_evaluate_expr_with_mapping (''A + B '' @ middle_dot_utf8 @ '' C'')
     ((\<lambda>_. 0)(CHR ''B'' := 1)) w) = 1 \<and>
   returned (solver_evaluate_expr_with_mapping (''(A + B) '' @ middle_dot_utf8 @ '' C'')
     ((\<lambda>_. 0)(CHR ''A'' := 1)) w) = Inr 1 \<and>
   fst (server_evaluate_expr_with_mapping (''(A + B) '' @ middle_dot_utf8 @ '' C'')
     ((\<lambda>_. 0)(CHR ''A'' := 1)) w) = 1 \<and>
   returned (solver_evaluate_expr_with_mapping (''A + B '' @ middle_dot_utf8 @ '' C'') m w) =
     returned (solver_evaluate_expr_with_mapping ''A + B'' m w) \<and>
   fst (server_evaluate_expr_with_mapping (''A + B '' @ middle_dot_utf8 @ '' C'') m w) =
     fst (server_evaluate_expr_with_mapping ''A + B'' m w) \<and>
   returned (solver_evaluate_expr_with_mapping (''(A + B) '' @ middle_dot_utf8 @ '' C'') m w) =
     returned (solver_evaluate_expr_with_mapping ''A + B'' m w) \<and>
   fst (server_evaluate_expr_with_mapping (''(A + B) '' @ middle_dot_utf8 @ '' C'') m w) =
     fst (server_evaluate_expr_with_mapping ''A + B'' m w) \<and>
   returned (solver_evaluate_expr_with_mapping (''A + B '' @ middle_dot_utf8 @ '' C'')
     ((\<lambda>_. 0)(CHR ''C'' := 1)) w) = Inr 0 \<and>
   returned (solver_evaluate_expr_with_mapping (''A + (B '' @ middle_dot_utf8 @ '' C)'')
     ((\<lambda>_. 0)(CHR ''C'' := 1)) w) = Inr 0 \<and>
   returned (solver_evaluate_expr_with_mapping (''(A + B) '' @ middle_dot_utf8 @ '' C'')
     ((\<lambda>_. 0)(CHR ''C'' := 1)) w) = Inr 0 \<and>
   fst (server_evaluate_expr_with_mapping (''A + B '' @ middle_dot_utf8 @ '' C'')
     ((\<lambda>_. 0)(CHR ''C'' := 1)) w) = 0 \<and>
   fst (server_evaluate_expr_with_mapping (''A + (B '' @ middle_dot_utf8 @ '' C)'')
     ((\<lambda>_. 0)(CHR ''C'' := 1)) w) = 0 \<and>
   fst (server_evaluate_expr_with_mapping (''(A + B) '' @ middle_dot_utf8 @ '' C'')
     ((\<lambda>_. 0)(CHR ''C'' := 1)) w) = 0 \<and>
   returned (solver_evaluate_expr_with_mapping ''!A + B'' m w) =
     returned (solver_evaluate_expr_with_mapping ''(!A) + B'' m w) \<and>
   fst (server_evaluate_expr_with_mapping ''!A + B'' m w) =
     fst (server_evaluate_expr_with_mapping ''(!A) + B'' m w) \<and>
   returned (solver_evaluate_expr_with_mapping ''!A + B'' ((\<lambda>_. 0)(CHR ''B'' := 1)) w) = Inr 1 \<and>
   returned (solver_evaluate_expr_with_mapping ''!(A + B)'' ((\<lambda>_. 0)(CHR ''B'' := 1)) w) = Inr 0 \<and>
   fst (server_evaluate_expr_with_mapping ''!A + B'' ((\<lambda>_. 0)(CHR ''B'' := 1)) w) = 1 \<and>
   fst (server_evaluate_expr_with_mapping ''!(A + B)'' ((\<lambda>_. 0)(CHR ''B'' := 1)) w) = 0"
  by (simp add: evaluation)

subsection \<open>C6: the two hosts compared\<close>

text \<open>
  C6 (as amended). On every input that conforms to the grammar, and for every mapping and
  state, \<^verbatim>\<open>evaluate_expr_with_mapping\<close> and \<^verbatim>\<open>evaluate_boolean_expression\<close> of the
  command-line host return what the same function of the CGI host returns, and leave the same
  state.
\<close>

theorem hosts_agree_on_grammar:
  assumes "conforms s"
  shows "solver_evaluate_expr_with_mapping s m w = Inr (server_evaluate_expr_with_mapping s m w) \<and>
         solver_evaluate_boolean_expression s w = Inr (server_evaluate_boolean_expression s w)"
  using conforms_both [OF assms, of "w\<lparr>g_var_mapping := m\<rparr>"]
    conforms_both [OF assms, of "w\<lparr>g_var_mapping := (\<lambda>_. 1)\<rparr>"]
  by (auto simp: solver_evaluate_expr_with_mapping_def server_evaluate_expr_with_mapping_def
      solver_evaluate_boolean_expression_def server_evaluate_boolean_expression_def)

theorem hosts_agree_on_grammar_witness:
  "conforms (''(A '' @ middle_dot_utf8 @ '' B) + !1'') \<and>
   solver_evaluate_expr_with_mapping (''(A '' @ middle_dot_utf8 @ '' B) + !1'') (\<lambda>_. 0) initial_world =
     Inr (server_evaluate_expr_with_mapping (''(A '' @ middle_dot_utf8 @ '' B) + !1'') (\<lambda>_. 0) initial_world)"
  using hosts_agree_on_grammar [OF conforms_dot_example, of "\<lambda>_. 0" initial_world] conforms_dot_example
  by simp

text \<open>
  C6 as stated fails: on \<^verbatim>\<open>"$+1"\<close> the command-line host steps over the \<^verbatim>\<open>$\<close> and goes on
  to \<^verbatim>\<open>+1\<close>, the CGI host stops in front of it.
\<close>

theorem hosts_differ:
  "returned (solver_evaluate_expr_with_mapping ''$+1'' (\<lambda>_. 1) initial_world) = Inr 1 \<and>
   fst (server_evaluate_expr_with_mapping ''$+1'' (\<lambda>_. 1) initial_world) = 0 \<and>
   returned (solver_evaluate_boolean_expression ''$+1'' initial_world) = Inr 1 \<and>
   fst (server_evaluate_boolean_expression ''$+1'' initial_world) = 0"
  by (simp add: evaluation)

subsection \<open>C7: an expression without variables\<close>

text \<open>
  C7. For an input without letters \<^verbatim>\<open>generate_truth_table\<close> prints one row: no variable
  values and the value \<^verbatim>\<open>evaluate_expr_with_mapping\<close> returns. For \<^verbatim>\<open>1\<close> \<open>\<cdot>\<close> \<^verbatim>\<open>0\<close> that value
  is 1, not 0: \<^verbatim>\<open>parse_term\<close> never recognises the middle dot, and the evaluation ends after
  the literal \<^verbatim>\<open>1\<close>.
\<close>

theorem zero_variable_table:
  "(variable_set expr = [] \<longrightarrow>
      solver_generate_truth_table expr w =
        (case solver_evaluate_expr_with_mapping expr (\<lambda>_. 1) w of
           Inl e \<Rightarrow> Inl e
         | Inr (result, w') \<Rightarrow> Inr ([([], result)], w'))) \<and>
   table_rows (solver_generate_truth_table (''1 '' @ middle_dot_utf8 @ '' 0'') w) = Inr [([], 1)]"
proof (intro conjI impI)
  assume "variable_set expr = []"
  then have "solver_collect_variables expr [] = []"
    using collect_variable_set [of expr] by simp
  then show "solver_generate_truth_table expr w =
        (case solver_evaluate_expr_with_mapping expr (\<lambda>_. 1) w of
           Inl e \<Rightarrow> Inl e
         | Inr (result, w') \<Rightarrow> Inr ([([], result)], w'))"
    by (simp add: solver_generate_truth_table_def solver_truth_table_row_def split: sum.splits)
next
  show "table_rows (solver_generate_truth_table (''1 '' @ middle_dot_utf8 @ '' 0'') w) = Inr [([], 1)]"
    by (simp add: solver_generate_truth_table_def solver_truth_table_row_def table_rows_def
        evaluation)
qed

theorem zero_variable_table_witness:
  "variable_set ''0'' = [] \<and>
   solver_generate_truth_table ''0'' initial_world =
     Inr ([([], 0)], initial_world\<lparr>g_var_mapping := (\<lambda>_. 1)\<rparr>)"
  using zero_variable_table [of "''0''" initial_world]
  by (simp add: variable_set_def evaluation)

subsection \<open>C8: evaluation of conforming input\<close>

text \<open>
  C8. For every input that conforms to the grammar of section 4.1, every mapping and every
  state, \<^verbatim>\<open>evaluate_expr_with_mapping\<close> of \<^verbatim>\<open>solver.c\<close> returns a value: it terminates and
  the cursor never leaves the string. For a variable mapping, which maps each character to
  its Boolean value (every entry 0 or 1, as the comment of the function puts it), that
  value is 0 or 1; so it is for \<^verbatim>\<open>evaluate_boolean_expression\<close>, whose mapping is all ones.
\<close>

theorem evaluation_total_on_grammar:
  assumes "conforms s"
  shows "(\<exists>v w'. solver_evaluate_expr_with_mapping s m w = Inr (v, w') \<and>
            (boolean_mapping m \<longrightarrow> v = 0 \<or> v = 1)) \<and>
         (\<exists>v w'. solver_evaluate_boolean_expression s w = Inr (v, w') \<and> (v = 0 \<or> v = 1))"
  using conforms_both [OF assms, of "w\<lparr>g_var_mapping := m\<rparr>"]
    conforms_both [OF assms, of "w\<lparr>g_var_mapping := (\<lambda>_. 1)\<rparr>"]
  by (auto simp: solver_evaluate_expr_with_mapping_def solver_evaluate_boolean_expression_def
      boolean_mapping_def)

theorem evaluation_total_on_grammar_witness:
  "conforms (''(A '' @ middle_dot_utf8 @ '' B) + !1'') \<and> boolean_mapping (\<lambda>_. 0) \<and>
   (\<exists>v w'. solver_evaluate_expr_with_mapping (''(A '' @ middle_dot_utf8 @ '' B) + !1'') (\<lambda>_. 0) initial_world = Inr (v, w')
      \<and> (v = 0 \<or> v = 1))"
  using evaluation_total_on_grammar [OF conforms_dot_example, of "\<lambda>_. 0" initial_world] conforms_dot_example
  by (simp add: boolean_mapping_def)

subsection \<open>C9: no state carries over between calls\<close>

text \<open>
  C9. What \<^verbatim>\<open>evaluate_expr_with_mapping\<close> and \<^verbatim>\<open>evaluate_boolean_expression\<close> return
  depends on the expression and the mapping only, whatever calls came before: the global
  array is overwritten before the parse reads it. In \<^verbatim>\<open>server.c\<close> this holds for every
  input. In \<^verbatim>\<open>solver.c\<close> it holds for every run that keeps the cursor inside the string: a
  value returned from one process state is returned from every other, and every input that
  conforms to the grammar is of that kind. On the empty input (see C10) the cursor of
  \<^verbatim>\<open>solver.c\<close> leaves the string from every state; what is returned then is fixed by the
  memory behind the string, not by the arguments.
\<close>

theorem evaluation_stateless:
  "(returned (solver_evaluate_expr_with_mapping expr mapping w1) = Inr v \<longrightarrow>
      returned (solver_evaluate_expr_with_mapping expr mapping w2) = Inr v) \<and>
   (returned (solver_evaluate_boolean_expression expr w1) = Inr v \<longrightarrow>
      returned (solver_evaluate_boolean_expression expr w2) = Inr v) \<and>
   (conforms expr \<longrightarrow>
      (\<exists>r. returned (solver_evaluate_expr_with_mapping expr mapping w1) = Inr r \<and>
           returned (solver_evaluate_expr_with_mapping expr mapping w2) = Inr r)) \<and>
   fst (server_evaluate_expr_with_mapping expr mapping w1) =
     fst (server_evaluate_expr_with_mapping expr mapping w2) \<and>
   fst (server_evaluate_boolean_expression expr w1) =
     fst (server_evaluate_boolean_expression expr w2) \<and>
   solver_evaluate_expr_with_mapping [] mapping w1 = Inl ReadPastEnd \<and>
   solver_evaluate_boolean_expression [] w1 = Inl ReadPastEnd"
proof -
  have solver: "returned (case solver_parse_expression expr (w1\<lparr>g_var_mapping := m\<rparr>) of
          Inl e \<Rightarrow> Inl e | Inr (result, p, w') \<Rightarrow> Inr (result, w')) =
        returned (case solver_parse_expression expr (w2\<lparr>g_var_mapping := m\<rparr>) of
          Inl e \<Rightarrow> Inl e | Inr (result, p, w') \<Rightarrow> Inr (result, w'))" for m
    using solver_agree(1) [rule_format, of "w2\<lparr>g_var_mapping := m\<rparr>" "w1\<lparr>g_var_mapping := m\<rparr>" expr]
    by (auto simp: agree_def returned_def split: sum.splits)
  have server: "fst (case server_parse_expression expr (w1\<lparr>g_var_mapping := m\<rparr>) of
          (result, p, w') \<Rightarrow> (result, w')) =
        fst (case server_parse_expression expr (w2\<lparr>g_var_mapping := m\<rparr>) of
          (result, p, w') \<Rightarrow> (result, w'))" for m
    using server_agree_all(1) [rule_format, of "w2\<lparr>g_var_mapping := m\<rparr>" "w1\<lparr>g_var_mapping := m\<rparr>" expr]
    by (auto simp: server_agree_def split: prod.splits)
  have eq: "returned (solver_evaluate_expr_with_mapping expr mapping w1) =
     returned (solver_evaluate_expr_with_mapping expr mapping w2)"
    "returned (solver_evaluate_boolean_expression expr w1) =
     returned (solver_evaluate_boolean_expression expr w2)"
    "fst (server_evaluate_expr_with_mapping expr mapping w1) =
     fst (server_evaluate_expr_with_mapping expr mapping w2)"
    "fst (server_evaluate_boolean_expression expr w1) =
     fst (server_evaluate_boolean_expression expr w2)"
    unfolding solver_evaluate_expr_with_mapping_def solver_evaluate_boolean_expression_def
      server_evaluate_expr_with_mapping_def server_evaluate_boolean_expression_def
    using solver server by blast+
  have conf: "\<exists>r. returned (solver_evaluate_expr_with_mapping expr mapping w1) = Inr r \<and>
           returned (solver_evaluate_expr_with_mapping expr mapping w2) = Inr r"
    if "conforms expr"
  proof -
    from conforms_evaluates [OF that, of mapping w1] obtain r w' where
      "solver_evaluate_expr_with_mapping expr mapping w1 = Inr (r, w')" by blast
    then have "returned (solver_evaluate_expr_with_mapping expr mapping w1) = Inr r"
      by (simp add: returned_def)
    with eq(1) show ?thesis by metis
  qed
  have empty: "solver_evaluate_expr_with_mapping [] mapping w1 = Inl ReadPastEnd"
    "solver_evaluate_boolean_expression [] w1 = Inl ReadPastEnd"
    by (simp_all add: evaluation)
  from eq conf empty show ?thesis by simp
qed

theorem evaluation_stateless_witness:
  "returned (solver_evaluate_expr_with_mapping (''(A '' @ middle_dot_utf8 @ '' B) + !1'') (\<lambda>_. 0)
      initial_world) = Inr 0 \<and>
   returned (solver_evaluate_boolean_expression (''(A '' @ middle_dot_utf8 @ '' B) + !1'')
      initial_world) = Inr 1 \<and>
   conforms (''(A '' @ middle_dot_utf8 @ '' B) + !1'') \<and>
   returned (solver_evaluate_expr_with_mapping (''(A '' @ middle_dot_utf8 @ '' B) + !1'') (\<lambda>_. 0)
      \<lparr>g_var_mapping = (\<lambda>_. 5), stderr = [''earlier output'']\<rparr>) = Inr 0 \<and>
   returned (solver_evaluate_boolean_expression (''(A '' @ middle_dot_utf8 @ '' B) + !1'')
      \<lparr>g_var_mapping = (\<lambda>_. 5), stderr = [''earlier output'']\<rparr>) = Inr 1"
proof -
  let ?e = "''(A '' @ middle_dot_utf8 @ '' B) + !1''"
  let ?w = "\<lparr>g_var_mapping = (\<lambda>_. 5), stderr = [''earlier output'']\<rparr>"
  have a: "returned (solver_evaluate_expr_with_mapping ?e (\<lambda>_. 0) initial_world) = Inr 0"
    by (simp add: evaluation)
  have b: "returned (solver_evaluate_boolean_expression ?e initial_world) = Inr 1"
    by (simp add: evaluation)
  from evaluation_stateless [of ?e "\<lambda>_. 0" initial_world 0 ?w] a
  have c: "returned (solver_evaluate_expr_with_mapping ?e (\<lambda>_. 0) ?w) = Inr 0" by blast
  from evaluation_stateless [of ?e "\<lambda>_. 0" initial_world 1 ?w] b
  have d: "returned (solver_evaluate_boolean_expression ?e ?w) = Inr 1" by blast
  from a b c d conforms_dot_example show ?thesis by blast
qed

subsection \<open>C10: the empty input\<close>

text \<open>
  C10. On an empty or all-whitespace input a factor is expected at the terminator.
  \<^verbatim>\<open>server.c\<close> gives it the value 0, reports nothing and returns 0. \<^verbatim>\<open>solver.c\<close> also sets
  the value 0, but its last branch then moves the cursor over the terminator, and the
  \<^verbatim>\<open>skip_whitespace\<close> that follows reads beyond the string.
\<close>

theorem empty_input:
  assumes "spaces ws"
  shows "solver_evaluate_boolean_expression ws w = Inl ReadPastEnd \<and>
         server_evaluate_boolean_expression ws w = (0, w\<lparr>g_var_mapping := (\<lambda>_. 1)\<rparr>)"
  using skip_whitespace_only_spaces [OF assms]
  by (simp add: solver_evaluate_boolean_expression_def server_evaluate_boolean_expression_def
      solver_parse_expression.simps solver_parse_term.simps solver_parse_factor.simps [of ws]
      server_parse_expression.simps server_parse_term.simps server_parse_factor.simps [of ws]
      server_term_loop_returns server_expression_loop.simps [of _ "[]"] peek_def char_tests)

theorem empty_input_witness:
  "spaces [] \<and> solver_evaluate_boolean_expression [] initial_world = Inl ReadPastEnd \<and>
   server_evaluate_boolean_expression [] initial_world = (0, initial_world\<lparr>g_var_mapping := (\<lambda>_. 1)\<rparr>)"
  using empty_input [of "[]" initial_world] by (simp add: spaces_def)

end
